theory Spec2Isabelle
  imports Main "HOL-Library.Multiset"
begin

section \<open>Archive sync and delivery tracking (src/src/discord.js)\<close>

text \<open>
  The file src/src/discord.js holds two revisions of the module, one after the other. The
  first (lines 1 to 185) posts the upload with the form-data package and keeps no counters;
  the second (lines 186 to 410) builds the multipart body itself, counts successes and
  failures and waits after a rate-limited failure. \<open>getAllPngFiles\<close> and
  \<open>extractDateFromPath\<close> are the same text in both. The second revision carries the plain
  names below; the definitions of the first are suffixed \<open>_rev1\<close>.

  Strings are lists of 8-bit characters, read as the code units U+0000 to U+00FF of a
  JavaScript string. Paths are POSIX paths.
\<close>

subsection \<open>Strings\<close>

definition startsWith :: "string \<Rightarrow> string \<Rightarrow> bool" where
  "startsWith s p = (take (length p) s = p)"

definition endsWith :: "string \<Rightarrow> string \<Rightarrow> bool" where
  "endsWith s p = (length p \<le> length s \<and> drop (length s - length p) s = p)"

text \<open>\<open>String.prototype.includes\<close>: the argument occurs at some position.\<close>

fun str_includes :: "string \<Rightarrow> string \<Rightarrow> bool" where
  "str_includes [] sub = (sub = [])"
| "str_includes (c # cs) sub = (startsWith (c # cs) sub \<or> str_includes cs sub)"

text \<open>
  \<open>path.basename\<close>: trailing slashes are dropped, then the part after the last slash is
  taken.
\<close>

definition strip_slashes :: "string \<Rightarrow> string" where
  "strip_slashes p = rev (dropWhile (\<lambda>c. c = CHR ''/'') (rev p))"

definition basename :: "string \<Rightarrow> string" where
  "basename p = rev (takeWhile (\<lambda>c. c \<noteq> CHR ''/'') (rev (strip_slashes p)))"

text \<open>
  \<open>path.join(dir, name)\<close> for a directory path that is already normalised and does not end
  in a slash, and an entry name that \<open>readdirSync\<close> returned.
\<close>

definition path_join :: "string \<Rightarrow> string \<Rightarrow> string" where
  "path_join dir name = dir @ ''/'' @ name"

text \<open>The decimal text of a number, as a template literal renders it.\<close>

definition digit_char :: "nat \<Rightarrow> char" where
  "digit_char d = char_of (48 + d)"

fun toString :: "nat \<Rightarrow> string" where
  "toString n = (if n < 10 then [digit_char n] else toString (n div 10) @ [digit_char (n mod 10)])"

declare toString.simps [simp del]

subsection \<open>The file name pattern\<close>

text \<open>
  The character classes of the regular expression \<open>/^(\d+)\s+(\w+)\s+(\d+)\.png$/\<close>
  (no flags): \<open>\d\<close> is 0-9, \<open>\w\<close> is A-Z a-z 0-9 and the underscore, \<open>\s\<close> is white
  space, of which tab, line feed, vertical tab, form feed, carriage return, space and the
  no-break space U+00A0 lie in the range of characters modelled.
\<close>

definition isDigit :: "char \<Rightarrow> bool" where
  "isDigit c = ((48::nat) \<le> of_char c \<and> of_char c \<le> (57::nat))"

definition isWord :: "char \<Rightarrow> bool" where
  "isWord c = (isDigit c \<or> ((65::nat) \<le> of_char c \<and> of_char c \<le> (90::nat))
     \<or> ((97::nat) \<le> of_char c \<and> of_char c \<le> (122::nat)) \<or> c = CHR ''_'')"

definition isSpace :: "char \<Rightarrow> bool" where
  "isSpace c = ((of_char c :: nat) \<in> {9, 10, 11, 12, 13, 32, 160})"

text \<open>
  \<open>filename.match(...)\<close>. The three classes that follow one another are disjoint or
  nested so that each greedy group can only take its whole run: a shorter first group
  would leave a digit where white space is required, and so on. The match is therefore
  computed by splitting off maximal runs. The result is the three captured groups.
\<close>

definition match_name :: "string \<Rightarrow> (string \<times> string \<times> string) option" where
  "match_name s =
     (let d1 = takeWhile isDigit s; r1 = dropWhile isDigit s;
          w1 = takeWhile isSpace r1; r2 = dropWhile isSpace r1;
          mn = takeWhile isWord r2; r3 = dropWhile isWord r2;
          w2 = takeWhile isSpace r3; r4 = dropWhile isSpace r3;
          d2 = takeWhile isDigit r4; r5 = dropWhile isDigit r4
      in if d1 \<noteq> [] \<and> w1 \<noteq> [] \<and> mn \<noteq> [] \<and> w2 \<noteq> [] \<and> d2 \<noteq> [] \<and> r5 = ''.png''
         then Some (d1, mn, d2) else None)"

text \<open>
  \<open>parseInt\<close> on a run of decimal digits. The exact value is used; a run too long for a
  double to hold exactly only occurs where the date below is out of range anyway.
\<close>

definition parseInt :: "string \<Rightarrow> int" where
  "parseInt ds = foldl (\<lambda>acc c. 10 * acc + (int (of_char c) - 48)) 0 ds"

definition months :: "string list" where
  "months = [''January'', ''February'', ''March'', ''April'', ''May'', ''June'',
             ''July'', ''August'', ''September'', ''October'', ''November'', ''December'']"

text \<open>\<open>months.indexOf(monthName)\<close>, with \<open>None\<close> for -1.\<close>

fun indexOf :: "'a list \<Rightarrow> 'a \<Rightarrow> nat option" where
  "indexOf [] x = None"
| "indexOf (y # ys) x = (if y = x then Some 0 else map_option Suc (indexOf ys x))"

subsection \<open>Dates\<close>

text \<open>
  A JavaScript number where the code computes with time values: an integer, or NaN. The
  arithmetic of ECMAScript's Date objects stays within the integers that a double holds
  exactly, so \<open>int\<close> is exact here.
\<close>

datatype number = Num int | NaN

definition msPerDay :: int where
  "msPerDay = 86400000"

definition InLeapYear :: "int \<Rightarrow> bool" where
  "InLeapYear y = (y mod 4 = 0 \<and> (y mod 100 \<noteq> 0 \<or> y mod 400 = 0))"

definition DayFromYear :: "int \<Rightarrow> int" where
  "DayFromYear y = 365 * (y - 1970) + (y - 1969) div 4 - (y - 1901) div 100 + (y - 1601) div 400"

text \<open>The number of days of year \<open>y\<close> that lie before the month with index \<open>m\<close>.\<close>

definition MonthStart :: "int \<Rightarrow> nat \<Rightarrow> int" where
  "MonthStart y m =
     [0, 31, 59, 90, 120, 151, 181, 212, 243, 273, 304, 334, 365] ! m
       + (if InLeapYear y \<and> 2 \<le> m then 1 else 0)"

definition DaysInMonth :: "int \<Rightarrow> nat \<Rightarrow> int" where
  "DaysInMonth y m = MonthStart y (m + 1) - MonthStart y m"

text \<open>\<open>MakeDay\<close> for a month index below 12: the day number of the first of the month
  plus the date minus one, whatever the date is.\<close>

definition MakeDay :: "int \<Rightarrow> nat \<Rightarrow> int \<Rightarrow> int" where
  "MakeDay y m d = DayFromYear y + MonthStart y m + d - 1"

definition TimeClip :: "int \<Rightarrow> number" where
  "TimeClip t = (if \<bar>t\<bar> > 8640000000000000 then NaN else Num t)"

text \<open>
  \<open>new Date(year, monthIndex, day).getTime()\<close>: a year from 0 to 99 stands for 1900 plus
  that year; the time is midnight; the local time is converted to UTC by the offset
  \<open>tza\<close> of the local time zone at that local time, in milliseconds; the result is clipped.
\<close>

definition new_Date_getTime :: "(int \<Rightarrow> int) \<Rightarrow> int \<Rightarrow> nat \<Rightarrow> int \<Rightarrow> number" where
  "new_Date_getTime tza year monthIndex day =
     (let yr = (if 0 \<le> year \<and> year \<le> 99 then 1900 + year else year);
          finalDate = MakeDay yr monthIndex day * msPerDay
      in TimeClip (finalDate - tza finalDate))"

definition extractDateFromPath :: "(int \<Rightarrow> int) \<Rightarrow> string \<Rightarrow> number" where
  "extractDateFromPath tza filePath =
     (let filename = basename filePath in
      case match_name filename of
        Some (g1, g2, g3) \<Rightarrow>
          (let day = parseInt g1; monthName = g2; year = parseInt g3 in
           case indexOf months monthName of
             Some monthIndex \<Rightarrow> new_Date_getTime tza year monthIndex day
           | None \<Rightarrow> Num 0)
      | None \<Rightarrow> Num 0)"

text \<open>
  What \<open>YearFromTime\<close>, \<open>MonthFromTime\<close> and \<open>DateFromTime\<close> read from a local time value:
  the year is the one whose days contain the day of \<open>t\<close>, the month the one whose days of
  that year do, the date the position in the month.
\<close>

definition Day :: "int \<Rightarrow> int" where
  "Day t = t div msPerDay"

definition date_fields :: "int \<Rightarrow> int \<Rightarrow> nat \<Rightarrow> int \<Rightarrow> bool" where
  "date_fields t y m d =
     (DayFromYear y \<le> Day t \<and> Day t < DayFromYear (y + 1) \<and> m < 12 \<and>
      MonthStart y m \<le> Day t - DayFromYear y \<and> Day t - DayFromYear y < MonthStart y (m + 1) \<and>
      d = Day t - DayFromYear y - MonthStart y m + 1)"

subsection \<open>The archive directory\<close>

text \<open>
  What \<open>readdirSync(dir, { withFileTypes: true })\<close> lists: an entry is a regular file, a
  directory with its own entries, or something else (a symbolic link, a socket), each with
  its name.
\<close>

datatype dirent = File string | Dir string "dirent list" | Other string

text \<open>The loop body of \<open>getAllPngFiles\<close> for one entry of the directory \<open>dir\<close>.\<close>

fun pngFilesOf :: "string \<Rightarrow> dirent \<Rightarrow> string list" where
  "pngFilesOf dir (Dir name items) = concat (map (pngFilesOf (path_join dir name)) items)"
| "pngFilesOf dir (File name) =
     (if endsWith name ''.png'' \<and> \<not> startsWith name ''.'' then [path_join dir name] else [])"
| "pngFilesOf dir (Other name) = []"

text \<open>
  \<open>getAllPngFiles(dir)\<close>. The second argument is the listing of \<open>dir\<close>, \<open>None\<close> when
  \<open>dir\<close> does not exist. A path that exists is taken to be a directory that can be read.
\<close>

definition getAllPngFiles :: "string \<Rightarrow> dirent list option \<Rightarrow> string list" where
  "getAllPngFiles dir listing =
     (case listing of None \<Rightarrow> [] | Some items \<Rightarrow> concat (map (pngFilesOf dir) items))"

text \<open>The paths of an entry and of everything below it.\<close>

fun pathsOf :: "string \<Rightarrow> dirent \<Rightarrow> string list" where
  "pathsOf dir (Dir name items) =
     path_join dir name # concat (map (pathsOf (path_join dir name)) items)"
| "pathsOf dir (File name) = [path_join dir name]"
| "pathsOf dir (Other name) = [path_join dir name]"

text \<open>\<open>fs.existsSync\<close> on the archive directory and the paths below it.\<close>

definition existsSync :: "string \<Rightarrow> dirent list option \<Rightarrow> string \<Rightarrow> bool" where
  "existsSync dir listing p =
     (case listing of None \<Rightarrow> False
      | Some items \<Rightarrow> p = dir \<or> p \<in> set (concat (map (pathsOf dir) items)))"

subsection \<open>Sorting\<close>

text \<open>The comparator's \<open>dateA - dateB\<close>.\<close>

fun minus_number :: "number \<Rightarrow> number \<Rightarrow> number" where
  "minus_number (Num a) (Num b) = Num (a - b)"
| "minus_number _ _ = NaN"

text \<open>
  \<open>Array.prototype.sort(comparefn)\<close> is the engine's, not the module's. A comparator result
  of NaN counts as 0. Where the comparator is a consistent comparator for the elements,
  the standard fixes the result: the stable sort. Otherwise the order is left to the
  implementation, which is what happens when a date is NaN. For an array of fewer than 64
  elements the model is what V8, the engine of Node.js, computes: the run at the start
  of the array is counted, and reversed when it descends strictly; every later element is
  then inserted into the sorted part at the place that a binary search finds. For a longer
  array, which V8 cuts into such pieces and merges, the model is the stable sort where
  the comparator is consistent, and otherwise a permutation that the world supplies.
\<close>

definition SortCompare :: "('a \<Rightarrow> 'a \<Rightarrow> number) \<Rightarrow> 'a \<Rightarrow> 'a \<Rightarrow> int" where
  "SortCompare comparefn x y = (case comparefn x y of NaN \<Rightarrow> 0 | Num v \<Rightarrow> v)"

text \<open>The loop of \<open>CountAndMakeRun\<close>: how many elements after the first two continue the
  run.\<close>

fun countRun :: "('a \<Rightarrow> 'a \<Rightarrow> number) \<Rightarrow> bool \<Rightarrow> 'a \<Rightarrow> 'a list \<Rightarrow> nat" where
  "countRun comparefn isDescending previousElement [] = 0"
| "countRun comparefn isDescending previousElement (currentElement # rest) =
     (if (if isDescending then SortCompare comparefn currentElement previousElement \<ge> 0
          else SortCompare comparefn currentElement previousElement < 0)
      then 0
      else Suc (countRun comparefn isDescending currentElement rest))"

text \<open>\<open>CountAndMakeRun\<close> on the whole array: the length of the run at its start, and the
  array with that run made ascending.\<close>

definition CountAndMakeRun :: "('a \<Rightarrow> 'a \<Rightarrow> number) \<Rightarrow> 'a list \<Rightarrow> nat \<times> 'a list" where
  "CountAndMakeRun comparefn workArray =
     (case workArray of
        elementHigh # elementLow # rest \<Rightarrow>
          (let isDescending = SortCompare comparefn elementLow elementHigh < 0;
               runLength = 2 + countRun comparefn isDescending elementLow rest
           in (runLength,
               if isDescending then rev (take runLength workArray) @ drop runLength workArray
               else workArray))
      | _ \<Rightarrow> (length workArray, workArray))"

text \<open>The inner loop of \<open>BinaryInsertionSort\<close>: the place of the pivot among the elements
  from \<open>left\<close> up to \<open>right\<close>.\<close>

function binarySearch ::
  "('a \<Rightarrow> 'a \<Rightarrow> number) \<Rightarrow> 'a \<Rightarrow> 'a list \<Rightarrow> nat \<Rightarrow> nat \<Rightarrow> nat" where
  "binarySearch comparefn pivot workArray left right =
     (if left < right then
        (if SortCompare comparefn pivot (workArray ! (left + (right - left) div 2)) < 0
         then binarySearch comparefn pivot workArray left (left + (right - left) div 2)
         else binarySearch comparefn pivot workArray (left + (right - left) div 2 + 1) right)
      else left)"
  by pat_completeness auto

termination
  by (relation "measure (\<lambda>(comparefn, pivot, workArray, left, right). right - left)") auto

declare binarySearch.simps [simp del]

text \<open>The body of the outer loop: the element at \<open>start\<close> moves to its place, and the
  elements between move one to the right.\<close>

definition insertPivot :: "('a \<Rightarrow> 'a \<Rightarrow> number) \<Rightarrow> nat \<Rightarrow> 'a list \<Rightarrow> nat \<Rightarrow> 'a list" where
  "insertPivot comparefn low workArray start =
     (let pivot = workArray ! start;
          left = binarySearch comparefn pivot workArray low start
      in take left workArray @ pivot # take (start - left) (drop left workArray)
           @ drop (Suc start) workArray)"

definition BinaryInsertionSort ::
  "('a \<Rightarrow> 'a \<Rightarrow> number) \<Rightarrow> 'a list \<Rightarrow> nat \<Rightarrow> nat \<Rightarrow> nat \<Rightarrow> 'a list" where
  "BinaryInsertionSort comparefn workArray low startArg high =
     foldl (insertPivot comparefn low) workArray
       [(if low = startArg then startArg + 1 else startArg) ..< high]"

text \<open>The stable sort by insertion: each element in turn moves left past every element
  that compares greater. \<open>sort_insert\<close> works on the sorted prefix in reverse.\<close>

fun sort_insert :: "('a \<Rightarrow> 'a \<Rightarrow> number) \<Rightarrow> 'a \<Rightarrow> 'a list \<Rightarrow> 'a list" where
  "sort_insert comparefn x [] = [x]"
| "sort_insert comparefn x (y # ys) =
     (if SortCompare comparefn y x > 0 then y # sort_insert comparefn x ys else x # y # ys)"

definition stableSort :: "('a \<Rightarrow> 'a \<Rightarrow> number) \<Rightarrow> 'a list \<Rightarrow> 'a list" where
  "stableSort comparefn xs = rev (foldl (\<lambda>acc x. sort_insert comparefn x acc) [] xs)"

text \<open>
  A consistent comparator for the elements of an array, as the standard defines it: no
  result is NaN, every element compares equal to itself, comparing equal is symmetric, and
  comparing equal, less and greater are transitive.
\<close>

definition consistent :: "('a \<Rightarrow> 'a \<Rightarrow> number) \<Rightarrow> 'a list \<Rightarrow> bool" where
  "consistent comparefn xs =
     (list_all (\<lambda>a. SortCompare comparefn a a = 0
        \<and> list_all (\<lambda>b. comparefn a b \<noteq> NaN
             \<and> (SortCompare comparefn a b \<noteq> 0 \<or> SortCompare comparefn b a = 0)
             \<and> list_all (\<lambda>c.
                  (SortCompare comparefn a b \<noteq> 0 \<or> SortCompare comparefn b c \<noteq> 0
                     \<or> SortCompare comparefn a c = 0)
                  \<and> (SortCompare comparefn a b \<ge> 0 \<or> SortCompare comparefn b c \<ge> 0
                     \<or> SortCompare comparefn a c < 0)
                  \<and> (SortCompare comparefn a b \<le> 0 \<or> SortCompare comparefn b c \<le> 0
                     \<or> SortCompare comparefn a c > 0)) xs) xs) xs)"

text \<open>An array in the order that a list of its indices gives. A list that is not a
  permutation of the indices, which no engine returns, leaves the array as it is.\<close>

definition permute :: "'a list \<Rightarrow> nat list \<Rightarrow> 'a list" where
  "permute xs p = (if mset p = mset [0 ..< length xs] then map (\<lambda>i. xs ! i) p else xs)"

text \<open>\<open>engine\<close> gives the order in which the engine leaves an array of 64 or more elements
  whose comparator is not consistent.\<close>

definition Array_sort ::
  "('a list \<Rightarrow> nat list) \<Rightarrow> ('a \<Rightarrow> 'a \<Rightarrow> number) \<Rightarrow> 'a list \<Rightarrow> 'a list" where
  "Array_sort engine comparefn xs =
     (if length xs < 2 then xs
      else if length xs < 64 then
        (case CountAndMakeRun comparefn xs of
           (runLength, workArray) \<Rightarrow>
             BinaryInsertionSort comparefn workArray 0 runLength (length workArray))
      else if consistent comparefn xs then stableSort comparefn xs
      else permute xs (engine xs))"

subsection \<open>Delivery of one file\<close>

datatype error = Error string | TypeError string

fun message :: "error \<Rightarrow> string" where
  "message (Error m) = m"
| "message (TypeError m) = m"

text \<open>What \<open>fetch\<close> gives: it rejects with an error message, or resolves to a response
  with a status and a body text.\<close>

datatype fetch_result = Rejected string | Response nat string

definition response_ok :: "nat \<Rightarrow> bool" where
  "response_ok status = (200 \<le> status \<and> status \<le> 299)"

text \<open>
  \<open>sendToDiscord(imagePath, webhookUrl)\<close> of the second revision, lines 196 to 282. The
  embed, the payload and the multipart body are built from the path and the bytes read
  and do not decide the result. \<open>exists\<close> is \<open>fs.existsSync\<close>; \<open>readFile\<close> is
  \<open>fs.readFileSync\<close> in line 214, which gives the message of the error that it throws (the
  path is a directory, or may not be read) or \<open>None\<close> when it returns the bytes;
  \<open>webhookUrl\<close> is \<open>None\<close> when it is undefined; \<open>res\<close> is what \<open>fetch\<close> gives if it is called, and
  the text of a response that arrives is taken to be readable. The result says whether
  \<open>fetch\<close> was called, and what the function threw or returned.
\<close>

definition sendToDiscord ::
  "(string \<Rightarrow> bool) \<Rightarrow> (string \<Rightarrow> string option) \<Rightarrow> fetch_result \<Rightarrow> string \<Rightarrow> string option
     \<Rightarrow> bool \<times> (error + bool)" where
  "sendToDiscord exists readFile res imagePath webhookUrl =
     (if webhookUrl = None \<or> webhookUrl = Some [] then
        (False, Inl (Error
          ''Discord webhook URL is required. Set DISCORD_WEBHOOK_URL environment variable.''))
      else if \<not> exists imagePath then
        (False, Inl (Error (''Image file not found: '' @ imagePath)))
      else
        (case readFile imagePath of
           Some m \<Rightarrow> (False, Inl (Error m))
         | None \<Rightarrow>
            (case res of
               Rejected m \<Rightarrow> (True, Inl (Error m))
             | Response status errorText \<Rightarrow>
                 if \<not> response_ok status then
                   (True, Inl (Error (''Discord API error ('' @ toString status @ ''): '' @ errorText)))
                 else (True, Inr True))))"

text \<open>
  \<open>sendToDiscord\<close> of the first revision, lines 12 to 71. It does not read the file: it
  hands a stream on the path to the form that \<open>fetch\<close> posts, so a file that cannot be read
  shows in what \<open>fetch\<close> gives.
\<close>

definition sendToDiscord_rev1 ::
  "(string \<Rightarrow> bool) \<Rightarrow> fetch_result \<Rightarrow> string \<Rightarrow> string option \<Rightarrow> bool \<times> (error + bool)" where
  "sendToDiscord_rev1 exists res imagePath webhookUrl =
     (if webhookUrl = None \<or> webhookUrl = Some [] then
        (False, Inl (Error
          ''Discord webhook URL is required. Set DISCORD_WEBHOOK_URL environment variable.''))
      else if \<not> exists imagePath then
        (False, Inl (Error (''Image file not found: '' @ imagePath)))
      else
        (case res of
           Rejected m \<Rightarrow> (True, Inl (Error m))
         | Response status errorText \<Rightarrow>
             if \<not> response_ok status then
               (True, Inl (Error (''Discord API error ('' @ toString status @ ''): '' @ errorText)))
             else (True, Inr True)))"

subsection \<open>The sent log and the world of a run\<close>

text \<open>What \<open>JSON.parse\<close> can give.\<close>

datatype json = JNull | JBool bool | JNum int | JStr string | JArr "json list"
  | JObj "(string \<times> json) list"

text \<open>
  The file .discord-sent.json: absent, present with a text that cannot be read or that
  \<open>JSON.parse\<close> rejects, or present with the text of a value. \<open>JSON.stringify\<close> followed by
  \<open>JSON.parse\<close> gives the value back, so the file is modelled by the value it holds.
\<close>

datatype stored = Absent | Unparsable | Parsed json

text \<open>
  What \<open>fs.writeFileSync\<close> on the sent log does: it writes the text, or it throws an error
  with a message, and has then either left the file as it was or cut it short, which
  leaves a text that \<open>JSON.parse\<close> rejects.
\<close>

datatype write_result = Written | WriteError string bool

text \<open>
  What a run finds: the offset of the local time zone, the order in which the engine's
  sort leaves a long array whose comparator is not consistent, the listing of the archive
  directory, what \<open>fs.readFileSync\<close> does on a path, the sent log, what the endpoint gives
  to the \<open>n\<close>-th call of \<open>fetch\<close> that the process or its predecessors make, what
  \<open>fs.writeFileSync\<close> does in the iteration that made that call, and how many calls have
  been made so far.
\<close>

record world =
  localTZA :: "int \<Rightarrow> int"
  sortOrder :: "string list \<Rightarrow> nat list"
  archives :: "dirent list option"
  readFileSync :: "string \<Rightarrow> string option"
  sentLog :: stored
  endpoint :: "nat \<Rightarrow> fetch_result"
  writeFileSync :: "nat \<Rightarrow> write_result"
  requests :: nat

text \<open>
  One entry per iteration of the delivery loop: the file, whether \<open>fetch\<close> was called,
  whether \<open>sendToDiscord\<close> returned, the value passed to \<open>fs.writeFileSync\<close>, the message of
  the error that the \<open>catch\<close> block received, and the time in milliseconds after which the
  awaited timer fired.
\<close>

record attempt =
  path :: string
  fetched :: bool
  uploaded :: bool
  written :: "json option"
  caught :: "string option"
  timeout :: "int option"

text \<open>The variables of the loop, the sent log on disk, and the trace so far.\<close>

record loop_state =
  sentFiles :: json
  successCount :: nat
  failCount :: nat
  persisted :: stored
  calls :: nat
  attempts :: "attempt list"

text \<open>Lines 292 to 302, and 81 to 91 in the first revision: the sent log is loaded, and
  starts empty when it is absent or cannot be parsed.\<close>

definition loadSentFiles :: "stored \<Rightarrow> json" where
  "loadSentFiles l = (case l of Absent \<Rightarrow> JArr [] | Unparsable \<Rightarrow> JArr [] | Parsed v \<Rightarrow> v)"

text \<open>
  \<open>files.filter(f => !sentFiles.includes(f))\<close>. The callback runs once per file. On an
  array \<open>includes\<close> compares with each element, on a string it looks for a substring, and
  no other value has the method.
\<close>

definition filterNew :: "json \<Rightarrow> string list \<Rightarrow> error + string list" where
  "filterNew sent files =
     (if files = [] then Inr []
      else case sent of
        JArr xs \<Rightarrow> Inr (filter (\<lambda>f. JStr f \<notin> set xs) files)
      | JStr t \<Rightarrow> Inr (filter (\<lambda>f. \<not> str_includes t f) files)
      | JNull \<Rightarrow> Inl (TypeError ''Cannot read properties of null (reading includes)'')
      | _ \<Rightarrow> Inl (TypeError ''sentFiles.includes is not a function''))"

text \<open>
  \<open>setTimeout(resolve, after)\<close>: the time in milliseconds after which the timer fires.
  Node.js sets a delay below 1 or above 2147483647 to 1.
\<close>

definition setTimeout :: "int \<Rightarrow> int" where
  "setTimeout after = (if 1 \<le> after \<and> after \<le> 2147483647 then after else 1)"

text \<open>Line 343, in the second revision only: the test on the message of the caught
  error.\<close>

definition rateLimited :: "string \<Rightarrow> bool" where
  "rateLimited m = (str_includes m ''rate limit'' \<or> str_includes m ''429'')"

text \<open>The \<open>catch\<close> block of the second revision, lines 338 to 347. The arguments after the
  file say how far the \<open>try\<close> block came.\<close>

definition catchBlock ::
  "string \<Rightarrow> bool \<Rightarrow> bool \<Rightarrow> json option \<Rightarrow> string \<Rightarrow> loop_state \<Rightarrow> loop_state" where
  "catchBlock f fetchCalled sent wr m s =
     s\<lparr>failCount := failCount s + 1,
       calls := calls s + (if fetchCalled then 1 else 0),
       attempts := attempts s @
         [\<lparr>path = f, fetched = fetchCalled, uploaded = sent, written = wr, caught = Some m,
           timeout = (if rateLimited m then Some (setTimeout 60000) else None)\<rparr>]\<rparr>"

text \<open>
  The body of the loop of the second revision, lines 324 to 347, in the world \<open>w\<close>, for the
  file at index \<open>i\<close> of the \<open>n\<close> new files. \<open>push\<close> exists on arrays only. \<open>push\<close> and \<open>successCount++\<close> come
  before \<open>fs.writeFileSync\<close>, so they stay when it throws.
\<close>

definition deliver ::
  "world \<Rightarrow> string \<Rightarrow> string option \<Rightarrow> int \<Rightarrow> nat
     \<Rightarrow> nat \<Rightarrow> string \<Rightarrow> loop_state \<Rightarrow> loop_state" where
  "deliver w archivesDir webhookUrl delayMs n i f s =
     (case sendToDiscord (existsSync archivesDir (archives w)) (readFileSync w)
             (endpoint w (calls s)) f webhookUrl of
        (fetchCalled, Inl e) \<Rightarrow> catchBlock f fetchCalled False None (message e) s
      | (fetchCalled, Inr _) \<Rightarrow>
          (case sentFiles s of
             JArr xs \<Rightarrow>
               (case writeFileSync w (calls s) of
                  Written \<Rightarrow>
                    s\<lparr>sentFiles := JArr (xs @ [JStr f]),
                      successCount := successCount s + 1,
                      persisted := Parsed (JArr (xs @ [JStr f])),
                      calls := calls s + 1,
                      attempts := attempts s @
                        [\<lparr>path = f, fetched = True, uploaded = True,
                          written = Some (JArr (xs @ [JStr f])), caught = None,
                          timeout = (if int i < int n - 1 then Some (setTimeout delayMs)
                                     else None)\<rparr>]\<rparr>
                | WriteError m truncated \<Rightarrow>
                    catchBlock f True True (Some (JArr (xs @ [JStr f]))) m
                      (s\<lparr>sentFiles := JArr (xs @ [JStr f]),
                         successCount := successCount s + 1,
                         persisted := (if truncated then Unparsable else persisted s)\<rparr>))
           | _ \<Rightarrow> catchBlock f fetchCalled True None ''sentFiles.push is not a function'' s))"

text \<open>The \<open>catch\<close> block of the first revision, lines 122 to 125: the error is logged.\<close>

definition catchBlock_rev1 ::
  "string \<Rightarrow> bool \<Rightarrow> bool \<Rightarrow> json option \<Rightarrow> string \<Rightarrow> loop_state \<Rightarrow> loop_state" where
  "catchBlock_rev1 f fetchCalled sent wr m s =
     s\<lparr>calls := calls s + (if fetchCalled then 1 else 0),
       attempts := attempts s @
         [\<lparr>path = f, fetched = fetchCalled, uploaded = sent, written = wr, caught = Some m,
           timeout = None\<rparr>]\<rparr>"

text \<open>
  The body of the loop of the first revision, lines 110 to 125. It has no counters, and
  finds the position of the file with \<open>newFiles.indexOf(file)\<close>.
\<close>

definition deliver_rev1 ::
  "world \<Rightarrow> string \<Rightarrow> string option \<Rightarrow> int \<Rightarrow> string list
     \<Rightarrow> nat \<Rightarrow> string \<Rightarrow> loop_state \<Rightarrow> loop_state" where
  "deliver_rev1 w archivesDir webhookUrl delayMs newFiles i f s =
     (case sendToDiscord_rev1 (existsSync archivesDir (archives w)) (endpoint w (calls s)) f
             webhookUrl of
        (fetchCalled, Inl e) \<Rightarrow> catchBlock_rev1 f fetchCalled False None (message e) s
      | (fetchCalled, Inr _) \<Rightarrow>
          (case sentFiles s of
             JArr xs \<Rightarrow>
               (case writeFileSync w (calls s) of
                  Written \<Rightarrow>
                    s\<lparr>sentFiles := JArr (xs @ [JStr f]),
                      persisted := Parsed (JArr (xs @ [JStr f])),
                      calls := calls s + 1,
                      attempts := attempts s @
                        [\<lparr>path = f, fetched = True, uploaded = True,
                          written = Some (JArr (xs @ [JStr f])), caught = None,
                          timeout =
                            (if (case indexOf newFiles f of Some k \<Rightarrow> int k | None \<Rightarrow> - 1)
                                  < int (length newFiles) - 1
                             then Some (setTimeout delayMs) else None)\<rparr>]\<rparr>
                | WriteError m truncated \<Rightarrow>
                    catchBlock_rev1 f True True (Some (JArr (xs @ [JStr f]))) m
                      (s\<lparr>sentFiles := JArr (xs @ [JStr f]),
                         persisted := (if truncated then Unparsable else persisted s)\<rparr>))
           | _ \<Rightarrow> catchBlock_rev1 f fetchCalled True None ''sentFiles.push is not a function'' s))"

text \<open>The loop: the body runs on each new file in turn, with its index.\<close>

fun deliverLoop ::
  "(nat \<Rightarrow> string \<Rightarrow> loop_state \<Rightarrow> loop_state) \<Rightarrow> nat \<Rightarrow> string list \<Rightarrow> loop_state \<Rightarrow> loop_state" where
  "deliverLoop body i [] s = s"
| "deliverLoop body i (f # rest) s = deliverLoop body (Suc i) rest (body i f s)"

subsection \<open>The sync run\<close>

text \<open>The lines of the final report: the second revision prints the two counters, the
  first the number of new files.\<close>

datatype console = Sent nat | Failed nat | SentNewFiles nat

record run =
  newFiles :: "string list"
  final :: loop_state
  report :: "console list"
  returned :: nat

text \<open>Lines 305 to 312, and 94 to 101 in the first revision: the files are found and
  sorted by \<open>dateA - dateB\<close>.\<close>

definition sortedFiles :: "world \<Rightarrow> string \<Rightarrow> string list" where
  "sortedFiles w archivesDir =
     Array_sort (sortOrder w)
       (\<lambda>a b. minus_number (extractDateFromPath (localTZA w) a)
                              (extractDateFromPath (localTZA w) b))
       (getAllPngFiles archivesDir (archives w))"

text \<open>
  Lines 292 to 318, and 81 to 107 in the first revision, up to the loop: the new files.
  \<open>sentFiles.length\<close> in line 315 (104) throws when the log holds \<open>null\<close>. The three counting
  lines of the console are not modelled.
\<close>

definition newFilesOf :: "world \<Rightarrow> string \<Rightarrow> error + string list" where
  "newFilesOf w archivesDir =
     (let files = sortedFiles w archivesDir in
      if loadSentFiles (sentLog w) = JNull then
        Inl (TypeError ''Cannot read properties of null (reading length)'')
      else filterNew (loadSentFiles (sentLog w)) files)"

definition initial :: "world \<Rightarrow> loop_state" where
  "initial w = \<lparr>sentFiles = loadSentFiles (sentLog w), successCount = 0, failCount = 0,
     persisted = sentLog w, calls = requests w, attempts = []\<rparr>"

text \<open>\<open>sendAllArchives(archivesDir, webhookUrl, delayMs)\<close> of the second revision, lines
  290 to 355.\<close>

definition sendAllArchives :: "world \<Rightarrow> string \<Rightarrow> string option \<Rightarrow> int \<Rightarrow> error + run" where
  "sendAllArchives w archivesDir webhookUrl delayMs =
     (case newFilesOf w archivesDir of
        Inl e \<Rightarrow> Inl e
      | Inr new \<Rightarrow>
          (let s = deliverLoop (deliver w archivesDir webhookUrl delayMs (length new))
                     0 new (initial w)
           in Inr \<lparr>newFiles = new, final = s,
                   report = [Sent (successCount s), Failed (failCount s)],
                   returned = successCount s\<rparr>))"

text \<open>\<open>sendAllArchives\<close> of the first revision, lines 79 to 130.\<close>

definition sendAllArchives_rev1 :: "world \<Rightarrow> string \<Rightarrow> string option \<Rightarrow> int \<Rightarrow> error + run" where
  "sendAllArchives_rev1 w archivesDir webhookUrl delayMs =
     (case newFilesOf w archivesDir of
        Inl e \<Rightarrow> Inl e
      | Inr new \<Rightarrow>
          (let s = deliverLoop (deliver_rev1 w archivesDir webhookUrl delayMs new)
                     0 new (initial w)
           in Inr \<lparr>newFiles = new, final = s,
                   report = [SentNewFiles (length new)],
                   returned = length new\<rparr>))"

text \<open>The world that a run leaves behind: the sent log as last written, and the calls
  made.\<close>

definition after :: "world \<Rightarrow> run \<Rightarrow> world" where
  "after w r = w\<lparr>sentLog := persisted (final r), requests := calls (final r)\<rparr>"

subsection \<open>Notions used to state the properties\<close>

text \<open>
  A directory listing as a file system gives it: no name contains a slash, and the names
  in one directory differ from each other.
\<close>

fun entryName :: "dirent \<Rightarrow> string" where
  "entryName (Dir name items) = name"
| "entryName (File name) = name"
| "entryName (Other name) = name"

fun wellFormed :: "dirent \<Rightarrow> bool" where
  "wellFormed (Dir name items) =
     (CHR ''/'' \<notin> set name \<and> distinct (map entryName items) \<and> (\<forall>item \<in> set items. wellFormed item))"
| "wellFormed (File name) = (CHR ''/'' \<notin> set name)"
| "wellFormed (Other name) = (CHR ''/'' \<notin> set name)"

definition wellFormedListing :: "dirent list option \<Rightarrow> bool" where
  "wellFormedListing listing =
     (case listing of None \<Rightarrow> True
      | Some items \<Rightarrow> distinct (map entryName items) \<and> (\<forall>item \<in> set items. wellFormed item))"

text \<open>The files of a trace for which \<open>sendToDiscord\<close> returned: the uploads that the
  endpoint accepted.\<close>

definition delivered :: "attempt list \<Rightarrow> string list" where
  "delivered as = map path (filter uploaded as)"

text \<open>The state of a run whose process ends after \<open>k\<close> iterations of the loop over the
  new files; it is also the state in which iteration \<open>k\<close> starts.\<close>

definition interrupted ::
  "(nat \<Rightarrow> string \<Rightarrow> loop_state \<Rightarrow> loop_state) \<Rightarrow> string list \<Rightarrow> loop_state \<Rightarrow> nat \<Rightarrow> loop_state" where
  "interrupted body new s k = deliverLoop body 0 (take k new) s"

text \<open>Whether a value of the sent log records a path: what \<open>sentFiles.includes(f)\<close> gives
  on an array or a string. No other value records anything.\<close>

definition records :: "json \<Rightarrow> string \<Rightarrow> bool" where
  "records v f = (case v of JArr xs \<Rightarrow> JStr f \<in> set xs | JStr t \<Rightarrow> str_includes t f | _ \<Rightarrow> False)"

text \<open>
  What one iteration does in either revision, where \<open>send c f\<close> is the call of
  \<open>sendToDiscord\<close> on the file \<open>f\<close> after \<open>c\<close> requests and \<open>disk c\<close> what the write in that
  iteration does: it adds one entry \<open>a\<close> to the trace; when the call throws, \<open>sentFiles\<close> and
  the sent log stay as they are; when it returns, the file is appended to \<open>sentFiles\<close> and
  the whole array is written, or \<open>push\<close> throws because \<open>sentFiles\<close> is not an array.
\<close>

definition iteration ::
  "(nat \<Rightarrow> string \<Rightarrow> bool \<times> (error + bool)) \<Rightarrow> (nat \<Rightarrow> write_result)
     \<Rightarrow> (nat \<Rightarrow> string \<Rightarrow> loop_state \<Rightarrow> loop_state) \<Rightarrow> nat \<Rightarrow> string \<Rightarrow> loop_state
     \<Rightarrow> attempt \<Rightarrow> bool" where
  "iteration send disk body i f s a =
     (attempts (body i f s) = attempts s @ [a] \<and> path a = f
        \<and> fetched a = fst (send (calls s) f)
        \<and> calls (body i f s) = calls s + (if fetched a then 1 else 0)
        \<and> (case snd (send (calls s) f) of
              Inl e \<Rightarrow> \<not> uploaded a \<and> written a = None \<and> caught a = Some (message e)
                \<and> sentFiles (body i f s) = sentFiles s \<and> persisted (body i f s) = persisted s
            | Inr _ \<Rightarrow> uploaded a
                \<and> (case sentFiles s of
                      JArr xs \<Rightarrow> sentFiles (body i f s) = JArr (xs @ [JStr f])
                        \<and> written a = Some (JArr (xs @ [JStr f]))
                        \<and> (case disk (calls s) of
                              Written \<Rightarrow> caught a = None
                                \<and> persisted (body i f s) = Parsed (JArr (xs @ [JStr f]))
                            | WriteError m truncated \<Rightarrow> caught a = Some m
                                \<and> persisted (body i f s) = (if truncated then Unparsable else persisted s))
                    | _ \<Rightarrow> written a = None \<and> caught a = Some ''sentFiles.push is not a function''
                        \<and> sentFiles (body i f s) = sentFiles s
                        \<and> persisted (body i f s) = persisted s)))"

definition step_spec ::
  "(nat \<Rightarrow> string \<Rightarrow> bool \<times> (error + bool)) \<Rightarrow> (nat \<Rightarrow> write_result)
     \<Rightarrow> (nat \<Rightarrow> string \<Rightarrow> loop_state \<Rightarrow> loop_state) \<Rightarrow> bool" where
  "step_spec send disk body = (\<forall>i f s. \<exists>a. iteration send disk body i f s a)"

text \<open>The number that a string of decimal digits denotes.\<close>

definition decimalValue :: "string \<Rightarrow> nat" where
  "decimalValue ds = foldl (\<lambda>n c. 10 * n + (of_char c - 48)) 0 ds"

subsection \<open>An example archive\<close>

text \<open>
  Three screenshots, listed out of date order among entries that the scan skips, and a
  world around them: the local time zone is UTC, every file can be read, every write of
  the sent log succeeds, and no call of \<open>fetch\<close> has been made.
\<close>

definition exampleArchive :: "dirent list" where
  "exampleArchive =
     [Dir ''2024'' [Dir ''February'' [File ''3 February 2024.png'', File ''.DS_Store''],
                    Dir ''January'' [File ''15 January 2024.png'', File ''1 January 2024.png'',
                                    File ''.hidden.png'', Other ''link.png'']],
      File ''README.md'']"

definition exampleWorld :: "stored \<Rightarrow> (nat \<Rightarrow> fetch_result) \<Rightarrow> world" where
  "exampleWorld l net =
     \<lparr>localTZA = (\<lambda>t. 0), sortOrder = (\<lambda>fs. []), archives = Some exampleArchive, readFileSync = (\<lambda>p. None),
      sentLog = l, endpoint = net, writeFileSync = (\<lambda>n. Written), requests = 0\<rparr>"

text \<open>An endpoint that answers the second request with 429 and every other one with 204.\<close>

definition exampleEndpoint :: "nat \<Rightarrow> fetch_result" where
  "exampleEndpoint n = (if n = 1 then Response 429 ''You are being rate limited.'' else Response 204 [])"

text \<open>
  An archive directory that holds a file whose year lies beyond the last year of a Date
  object, 275760, between two ordinary files, and a world with it: no sent log, an endpoint
  that accepts everything, the local time zone UTC.
\<close>

definition farYearWorld :: world where
  "farYearWorld =
     \<lparr>localTZA = (\<lambda>t. 0), sortOrder = (\<lambda>fs. []),
      archives = Some [File ''1 January 2025.png'', File ''2 January 300000.png'',
                       File ''3 January 2024.png''],
      readFileSync = (\<lambda>p. None), sentLog = Absent, endpoint = (\<lambda>n. Response 204 []),
      writeFileSync = (\<lambda>n. Written), requests = 0\<rparr>"

text \<open>The example world with an endpoint that accepts everything and a disk on which the
  first write of the sent log fails and leaves the file as it was.\<close>

definition failingDiskWorld :: world where
  "failingDiskWorld =
     (exampleWorld Absent (\<lambda>n. Response 204 []))
       \<lparr>writeFileSync :=
          (\<lambda>n. if n = 0 then WriteError ''EACCES: permission denied, open .discord-sent.json'' False
                else Written)\<rparr>"

section \<open>Properties\<close>

subsection \<open>Substrings\<close>

lemma startsWith_iff: "startsWith s p \<longleftrightarrow> (\<exists>b. s = p @ b)"
  unfolding startsWith_def
  by (metis append_eq_conv_conj append_take_drop_id)

lemma str_includes_iff: "str_includes s sub \<longleftrightarrow> (\<exists>a b. s = a @ sub @ b)"
proof (induction s)
  case Nil
  then show ?case by auto
next
  case (Cons c cs)
  show ?case
  proof
    assume "str_includes (c # cs) sub"
    then consider "startsWith (c # cs) sub" | "str_includes cs sub" by auto
    then show "\<exists>a b. c # cs = a @ sub @ b"
    proof cases
      case 1
      then obtain b where "c # cs = sub @ b" by (auto simp: startsWith_iff)
      then have "c # cs = [] @ sub @ b" by simp
      then show ?thesis by blast
    next
      case 2
      then obtain a b where "cs = a @ sub @ b" using Cons.IH by auto
      then have "c # cs = (c # a) @ sub @ b" by simp
      then show ?thesis by blast
    qed
  next
    assume "\<exists>a b. c # cs = a @ sub @ b"
    then obtain a b where ab: "c # cs = a @ sub @ b" by auto
    show "str_includes (c # cs) sub"
    proof (cases a)
      case Nil
      with ab have "startsWith (c # cs) sub" by (auto simp: startsWith_iff)
      then show ?thesis by simp
    next
      case (Cons a1 as)
      with ab have "cs = as @ sub @ b" by simp
      then have "str_includes cs sub" using Cons.IH by blast
      then show ?thesis by simp
    qed
  qed
qed

lemma str_includes_mid: "str_includes (a @ sub @ b) sub"
  by (auto simp: str_includes_iff)

lemma str_includes_end: "str_includes (a @ sub) sub"
  using str_includes_mid [of a sub "[]"] by simp

subsection \<open>The files that are found\<close>

lemma pngFilesOf_shape:
  "p \<in> set (pngFilesOf dir e) \<Longrightarrow>
     \<exists>r. p = dir @ ''/'' @ entryName e @ r \<and> (r = [] \<or> hd r = CHR ''/'')"
proof (induction dir e arbitrary: p rule: pngFilesOf.induct)
  case (1 dir name items)
  then obtain item where item: "item \<in> set items" "p \<in> set (pngFilesOf (path_join dir name) item)"
    by auto
  from "1.IH" [OF item] obtain r where "p = path_join dir name @ ''/'' @ entryName item @ r" by blast
  then have "p = dir @ ''/'' @ entryName (Dir name items) @ (''/'' @ entryName item @ r)"
    by (simp add: path_join_def)
  then show ?case by (metis append_Cons list.sel(1))
next
  case (2 dir name)
  then show ?case by (auto simp: path_join_def split: if_splits)
next
  case (3 dir name)
  then show ?case by simp
qed

lemma takeWhile_name:
  assumes "CHR ''/'' \<notin> set n" and "r = [] \<or> hd r = CHR ''/''"
  shows "takeWhile (\<lambda>c. c \<noteq> CHR ''/'') (n @ r) = n"
proof -
  have all: "\<forall>x \<in> set n. x \<noteq> CHR ''/''" using assms(1) by auto
  show ?thesis
  proof (cases r)
    case Nil
    with all show ?thesis by (simp add: takeWhile_eq_all_conv)
  next
    case (Cons c cs)
    with assms have "c = CHR ''/''" by simp
    with Cons all show ?thesis by (simp add: takeWhile_append2)
  qed
qed

lemma pngFilesOf_disjoint:
  assumes "CHR ''/'' \<notin> set (entryName e1)" "CHR ''/'' \<notin> set (entryName e2)"
    and "entryName e1 \<noteq> entryName e2"
  shows "set (pngFilesOf dir e1) \<inter> set (pngFilesOf dir e2) = {}"
proof (rule ccontr)
  assume "set (pngFilesOf dir e1) \<inter> set (pngFilesOf dir e2) \<noteq> {}"
  then obtain p where p: "p \<in> set (pngFilesOf dir e1)" "p \<in> set (pngFilesOf dir e2)" by auto
  from pngFilesOf_shape [OF p(1)] obtain r1 where
    r1: "p = dir @ ''/'' @ entryName e1 @ r1" "r1 = [] \<or> hd r1 = CHR ''/''" by blast
  from pngFilesOf_shape [OF p(2)] obtain r2 where
    r2: "p = dir @ ''/'' @ entryName e2 @ r2" "r2 = [] \<or> hd r2 = CHR ''/''" by blast
  from r1(1) r2(1) have "entryName e1 @ r1 = entryName e2 @ r2" by simp
  then have "takeWhile (\<lambda>c. c \<noteq> CHR ''/'') (entryName e1 @ r1)
           = takeWhile (\<lambda>c. c \<noteq> CHR ''/'') (entryName e2 @ r2)" by simp
  then have "entryName e1 = entryName e2"
    using takeWhile_name [OF assms(1) r1(2)] takeWhile_name [OF assms(2) r2(2)] by simp
  with assms(3) show False by simp
qed

lemma wellFormed_name: "wellFormed e \<Longrightarrow> CHR ''/'' \<notin> set (entryName e)"
  by (cases e) auto

lemma distinct_concat_pngFilesOf:
  assumes "distinct (map entryName items)" and "\<forall>e \<in> set items. wellFormed e"
    and "\<forall>e \<in> set items. distinct (pngFilesOf dir e)"
  shows "distinct (concat (map (pngFilesOf dir) items))"
  using assms
proof (induction items)
  case Nil
  then show ?case by simp
next
  case (Cons e es)
  have "set (pngFilesOf dir e) \<inter> set (pngFilesOf dir e') = {}" if "e' \<in> set es" for e'
  proof -
    from that Cons.prems(1) have "entryName e \<noteq> entryName e'" by auto
    moreover have "CHR ''/'' \<notin> set (entryName e)" "CHR ''/'' \<notin> set (entryName e')"
      using Cons.prems(2) that wellFormed_name [of e] wellFormed_name [of e'] by auto
    ultimately show ?thesis by (intro pngFilesOf_disjoint)
  qed
  then have "set (pngFilesOf dir e) \<inter> set (concat (map (pngFilesOf dir) es)) = {}" by auto
  with Cons show ?case by simp
qed

lemma distinct_pngFilesOf: "wellFormed e \<Longrightarrow> distinct (pngFilesOf dir e)"
proof (induction dir e rule: pngFilesOf.induct)
  case (1 dir name items)
  then show ?case by (auto intro!: distinct_concat_pngFilesOf)
next
  case (2 dir name)
  then show ?case by simp
next
  case (3 dir name)
  then show ?case by simp
qed

lemma distinct_getAllPngFiles:
  "wellFormedListing listing \<Longrightarrow> distinct (getAllPngFiles dir listing)"
  by (auto simp: wellFormedListing_def getAllPngFiles_def split: option.splits
      intro!: distinct_concat_pngFilesOf distinct_pngFilesOf)

lemma pngFilesOf_pathsOf: "set (pngFilesOf dir e) \<subseteq> set (pathsOf dir e)"
  by (induction dir e rule: pngFilesOf.induct) auto

lemma getAllPngFiles_exist:
  "f \<in> set (getAllPngFiles dir listing) \<Longrightarrow> existsSync dir listing f"
  using pngFilesOf_pathsOf
  by (fastforce simp: getAllPngFiles_def existsSync_def split: option.splits)

subsection \<open>The sort is a permutation\<close>

lemma binarySearch_bounds:
  "left \<le> right \<Longrightarrow>
     left \<le> binarySearch cmp pivot a left right \<and> binarySearch cmp pivot a left right \<le> right"
proof (induction cmp pivot a left right rule: binarySearch.induct)
  case (1 cmp pivot a left right)
  show ?case
  proof (cases "left < right")
    case False
    then have "binarySearch cmp pivot a left right = left"
      by (subst binarySearch.simps) simp
    with "1.prems" show ?thesis by simp
  next
    case lt: True
    let ?mid = "left + (right - left) div 2"
    have m: "left \<le> ?mid" "?mid < right" using lt by auto
    show ?thesis
    proof (cases "SortCompare cmp pivot (a ! ?mid) < 0")
      case True
      from "1.IH"(1) [OF lt True] m
      have "left \<le> binarySearch cmp pivot a left ?mid \<and> binarySearch cmp pivot a left ?mid \<le> ?mid"
        by simp
      moreover have "binarySearch cmp pivot a left right = binarySearch cmp pivot a left ?mid"
        using lt True by (subst binarySearch.simps) simp
      ultimately show ?thesis using m by simp
    next
      case False
      from "1.IH"(2) [OF lt False] m
      have "?mid + 1 \<le> binarySearch cmp pivot a (?mid + 1) right
          \<and> binarySearch cmp pivot a (?mid + 1) right \<le> right"
        by simp
      moreover have "binarySearch cmp pivot a left right
          = binarySearch cmp pivot a (?mid + 1) right"
        using lt False by (subst binarySearch.simps) simp
      ultimately show ?thesis using m by simp
    qed
  qed
qed

lemma mset_insertPivot:
  assumes "start < length a" and "low \<le> start"
  shows "mset (insertPivot cmp low a start) = mset a"
    and "length (insertPivot cmp low a start) = length a"
proof -
  let ?l = "binarySearch cmp (a ! start) a low start"
  from binarySearch_bounds [OF assms(2), of cmp "a ! start" a] have l: "?l \<le> start" by simp
  have a: "a = take ?l a @ take (start - ?l) (drop ?l a) @ a ! start # drop (Suc start) a"
  proof -
    have "drop ?l a = take (start - ?l) (drop ?l a) @ drop (start - ?l) (drop ?l a)"
      by (rule append_take_drop_id [symmetric])
    also have "drop (start - ?l) (drop ?l a) = drop start a" using l by simp
    also have "drop start a = a ! start # drop (Suc start) a"
      using assms(1) by (simp add: Cons_nth_drop_Suc)
    finally have "drop ?l a = take (start - ?l) (drop ?l a) @ a ! start # drop (Suc start) a" .
    then have "take ?l a @ drop ?l a
        = take ?l a @ take (start - ?l) (drop ?l a) @ a ! start # drop (Suc start) a"
      by simp
    then show ?thesis by simp
  qed
  have "mset (insertPivot cmp low a start)
      = mset (take ?l a @ take (start - ?l) (drop ?l a) @ a ! start # drop (Suc start) a)"
    by (simp add: insertPivot_def Let_def)
  with a show "mset (insertPivot cmp low a start) = mset a" by simp
  then show "length (insertPivot cmp low a start) = length a" by (metis size_mset)
qed

lemma mset_foldl_insertPivot:
  "\<forall>i \<in> set is. i < length a \<and> low \<le> i \<Longrightarrow>
     mset (foldl (insertPivot cmp low) a is) = mset a"
proof (induction "is" arbitrary: a)
  case Nil
  then show ?case by simp
next
  case (Cons i "is")
  from Cons.prems have i: "i < length a" "low \<le> i" by simp_all
  note m = mset_insertPivot [OF i, of cmp]
  from Cons.prems m(2) have "\<forall>j \<in> set is. j < length (insertPivot cmp low a i) \<and> low \<le> j"
    by simp
  from Cons.IH [OF this] m(1) show ?case by simp
qed

lemma mset_CountAndMakeRun:
  "mset (snd (CountAndMakeRun cmp a)) = mset a"
proof -
  have "mset (take n ys) + mset (drop n ys) = mset ys" for n and ys :: "'a list"
    by (metis append_take_drop_id mset_append)
  then show ?thesis
    by (simp add: CountAndMakeRun_def Let_def split: list.splits)
qed

lemma mset_sort_insert: "mset (sort_insert cmp x ys) = add_mset x (mset ys)"
  by (induction ys) auto

lemma mset_stableSort: "mset (stableSort cmp xs) = mset xs"
proof -
  have "mset (foldl (\<lambda>acc x. sort_insert cmp x acc) acc xs) = mset acc + mset xs" for acc
    by (induction xs arbitrary: acc) (auto simp: mset_sort_insert)
  then show ?thesis by (simp add: stableSort_def)
qed

lemma mset_permute: "mset (permute xs p) = mset xs"
proof (cases "mset p = mset [0 ..< length xs]")
  case True
  have "mset (map (\<lambda>i. xs ! i) p) = image_mset (\<lambda>i. xs ! i) (mset p)" by simp
  also have "\<dots> = image_mset (\<lambda>i. xs ! i) (mset [0 ..< length xs])" by (simp only: True)
  also have "\<dots> = mset (map (\<lambda>i. xs ! i) [0 ..< length xs])" by simp
  also have "map (\<lambda>i. xs ! i) [0 ..< length xs] = xs" by (rule map_nth)
  finally show ?thesis using True by (simp add: permute_def)
next
  case False
  then show ?thesis by (simp add: permute_def)
qed

lemma mset_Array_sort: "mset (Array_sort engine cmp xs) = mset xs"
proof -
  obtain n a where c: "CountAndMakeRun cmp xs = (n, a)" by (cases "CountAndMakeRun cmp xs")
  from mset_CountAndMakeRun [of cmp xs] c have a: "mset a = mset xs" by simp
  have "mset (BinaryInsertionSort cmp a 0 n (length a)) = mset a"
    unfolding BinaryInsertionSort_def by (rule mset_foldl_insertPivot) simp
  with c a show ?thesis
    by (simp add: Array_sort_def mset_stableSort mset_permute)
qed

lemma set_Array_sort: "set (Array_sort engine cmp xs) = set xs"
  using mset_Array_sort by (metis set_mset_mset)

lemma distinct_Array_sort: "distinct (Array_sort engine cmp xs) = distinct xs"
  using mset_Array_sort by (metis mset_eq_imp_distinct_iff)

lemma length_Array_sort: "length (Array_sort engine cmp xs) = length xs"
  using mset_Array_sort by (metis size_mset)

subsection \<open>The delivery loop\<close>

lemma sendToDiscord_Inr_fetched: "sendToDiscord ex rd res f url = (c, Inr b) \<Longrightarrow> c"
  by (auto simp: sendToDiscord_def split: if_splits fetch_result.splits option.splits)

lemma sendToDiscord_rev1_Inr_fetched: "sendToDiscord_rev1 ex res f url = (c, Inr b) \<Longrightarrow> c"
  by (auto simp: sendToDiscord_rev1_def split: if_splits fetch_result.splits)

lemma step_spec_deliver:
  "step_spec (\<lambda>c f. sendToDiscord (existsSync dir (archives w)) (readFileSync w) (endpoint w c) f url)
     (writeFileSync w) (deliver w dir url d n)"
  unfolding step_spec_def
proof (intro allI)
  fix i f and s :: loop_state
  let ?send = "sendToDiscord (existsSync dir (archives w)) (readFileSync w) (endpoint w (calls s)) f url"
  obtain c r where sr: "?send = (c, r)" by (cases ?send)
  show "\<exists>a. iteration (\<lambda>c f. sendToDiscord (existsSync dir (archives w)) (readFileSync w) (endpoint w c) f url)
          (writeFileSync w) (deliver w dir url d n) i f s a"
  proof (cases r)
    case (Inl e)
    with sr show ?thesis by (simp add: iteration_def deliver_def catchBlock_def)
  next
    case (Inr b)
    from sr [unfolded Inr] have "c" by (rule sendToDiscord_Inr_fetched)
    with Inr sr show ?thesis
      by (cases "sentFiles s"; cases "writeFileSync w (calls s)")
         (simp_all add: iteration_def deliver_def catchBlock_def)
  qed
qed

lemma step_spec_deliver_rev1:
  "step_spec (\<lambda>c f. sendToDiscord_rev1 (existsSync dir (archives w)) (endpoint w c) f url)
     (writeFileSync w) (deliver_rev1 w dir url d new)"
  unfolding step_spec_def
proof (intro allI)
  fix i f and s :: loop_state
  let ?send = "sendToDiscord_rev1 (existsSync dir (archives w)) (endpoint w (calls s)) f url"
  obtain c r where sr: "?send = (c, r)" by (cases ?send)
  show "\<exists>a. iteration (\<lambda>c f. sendToDiscord_rev1 (existsSync dir (archives w)) (endpoint w c) f url)
          (writeFileSync w) (deliver_rev1 w dir url d new) i f s a"
  proof (cases r)
    case (Inl e)
    with sr show ?thesis by (simp add: iteration_def deliver_rev1_def catchBlock_rev1_def)
  next
    case (Inr b)
    from sr [unfolded Inr] have "c" by (rule sendToDiscord_rev1_Inr_fetched)
    with Inr sr show ?thesis
      by (cases "sentFiles s"; cases "writeFileSync w (calls s)")
         (simp_all add: iteration_def deliver_rev1_def catchBlock_rev1_def)
  qed
qed

lemma deliverLoop_append:
  "deliverLoop body i (xs @ ys) s = deliverLoop body (i + length xs) ys (deliverLoop body i xs s)"
  by (induction xs arbitrary: i s) auto

subsection \<open>The trace of the loop\<close>

lemma delivered_Cons:
  "delivered (a # as) = (if uploaded a then path a # delivered as else delivered as)"
  by (simp add: delivered_def)

lemma delivered_Nil [simp]: "delivered [] = []"
  by (simp add: delivered_def)

lemma delivered_subset: "set (delivered as) \<subseteq> set (map path as)"
  by (auto simp: delivered_def)

lemma delivered_take_subset: "set (delivered (take j as)) \<subseteq> set (delivered as)"
  by (auto simp: delivered_def dest: in_set_takeD)

lemma distinct_delivered: "distinct (map path as) \<Longrightarrow> distinct (delivered as)"
  unfolding delivered_def by (induction as) auto

text \<open>The description of one iteration, ready for use.\<close>

lemma step_specD: "step_spec send disk body \<Longrightarrow> \<exists>a. iteration send disk body i f s a"
  by (simp add: step_spec_def)

lemma iteration_attempt:
  assumes "iteration send disk body i f s a"
  shows "attempts (body i f s) = attempts s @ [a]" and "path a = f"
    and "fetched a = fst (send (calls s) f)"
    and "calls (body i f s) = calls s + (if fetched a then 1 else 0)"
  using assms by (simp_all add: iteration_def)

lemma iteration_Inl:
  assumes "iteration send disk body i f s a" and "snd (send (calls s) f) = Inl e"
  shows "\<not> uploaded a" and "written a = None" and "caught a = Some (message e)"
    and "sentFiles (body i f s) = sentFiles s" and "persisted (body i f s) = persisted s"
  using assms by (simp_all add: iteration_def)

lemma iteration_Inr:
  assumes "iteration send disk body i f s a" and "snd (send (calls s) f) = Inr b"
  shows "uploaded a"
  using assms by (simp add: iteration_def)

lemma iteration_Inr_array:
  assumes "iteration send disk body i f s a" and "snd (send (calls s) f) = Inr b"
    and "sentFiles s = JArr xs"
  shows "sentFiles (body i f s) = JArr (xs @ [JStr f])"
    and "written a = Some (JArr (xs @ [JStr f]))"
    and "disk (calls s) = Written \<Longrightarrow> caught a = None"
    and "disk (calls s) = Written \<Longrightarrow> persisted (body i f s) = Parsed (JArr (xs @ [JStr f]))"
    and "disk (calls s) = WriteError m t \<Longrightarrow> caught a = Some m"
    and "disk (calls s) = WriteError m t \<Longrightarrow>
           persisted (body i f s) = (if t then Unparsable else persisted s)"
  using assms by (simp_all add: iteration_def)

lemma iteration_Inr_other:
  assumes "iteration send disk body i f s a" and "snd (send (calls s) f) = Inr b"
    and "\<forall>xs. sentFiles s \<noteq> JArr xs"
  shows "written a = None" and "caught a = Some ''sentFiles.push is not a function''"
    and "sentFiles (body i f s) = sentFiles s" and "persisted (body i f s) = persisted s"
  using assms by (cases "sentFiles s"; simp add: iteration_def)+

text \<open>Every iteration adds one entry, on its file.\<close>

lemma deliverLoop_paths:
  assumes "step_spec send disk body"
  shows "\<exists>as. attempts (deliverLoop body i fs s) = attempts s @ as \<and> map path as = fs"
proof (induction fs arbitrary: i s)
  case Nil
  then show ?case by simp
next
  case (Cons f fs)
  from step_specD [OF assms, of i f s] obtain a where it: "iteration send disk body i f s a" ..
  note a = iteration_attempt(1,2) [OF it]
  from Cons [of "Suc i" "body i f s"] obtain as where
    as: "attempts (deliverLoop body (Suc i) fs (body i f s)) = attempts (body i f s) @ as"
      "map path as = fs"
    by blast
  show ?case by (rule exI [of _ "a # as"]) (simp add: a as)
qed

text \<open>A value of \<open>sentFiles\<close> that is not an array stays, and nothing is written.\<close>

lemma deliverLoop_not_array:
  assumes "step_spec send disk body" and "\<forall>xs. sentFiles s \<noteq> JArr xs"
  shows "sentFiles (deliverLoop body i fs s) = sentFiles s
       \<and> persisted (deliverLoop body i fs s) = persisted s"
  using assms(2)
proof (induction fs arbitrary: i s)
  case Nil
  then show ?case by simp
next
  case (Cons f fs)
  have s1: "sentFiles (body i f s) = sentFiles s \<and> persisted (body i f s) = persisted s"
  proof -
    from step_specD [OF assms(1), of i f s] obtain a where
      it: "iteration send disk body i f s a" ..
    show ?thesis
    proof (cases "snd (send (calls s) f)")
      case (Inl e)
      from iteration_Inl(4,5) [OF it this] show ?thesis by simp
    next
      case (Inr b)
      from iteration_Inr_other(3,4) [OF it this Cons.prems] show ?thesis by simp
    qed
  qed
  with Cons.prems have "\<forall>xs. sentFiles (body i f s) \<noteq> JArr xs" by simp
  from Cons.IH [OF this, of "Suc i"] s1 show ?case by simp
qed

text \<open>
  Where \<open>sentFiles\<close> is an array, it receives the uploaded files in turn. The sent log is
  as before, or cut short, or holds the array of an earlier moment; after a trace in which
  no write failed it holds the array as it is.
\<close>

lemma deliverLoop_trace:
  assumes "step_spec send disk body" and "sentFiles s = JArr xs"
  shows "\<exists>as. attempts (deliverLoop body i fs s) = attempts s @ as \<and> map path as = fs
           \<and> sentFiles (deliverLoop body i fs s) = JArr (xs @ map JStr (delivered as))
           \<and> (persisted (deliverLoop body i fs s) = persisted s
               \<or> persisted (deliverLoop body i fs s) = Unparsable
               \<or> (\<exists>j \<le> length as. persisted (deliverLoop body i fs s)
                     = Parsed (JArr (xs @ map JStr (delivered (take j as))))))
           \<and> ((\<forall>a \<in> set as. written a \<noteq> None \<longrightarrow> caught a = None) \<longrightarrow>
                 persisted (deliverLoop body i fs s)
                   = (if delivered as = [] then persisted s
                      else Parsed (JArr (xs @ map JStr (delivered as)))))"
  using assms(2)
proof (induction fs arbitrary: i s xs)
  case Nil
  then show ?case by simp
next
  case (Cons f fs)
  let ?s1 = "body i f s"
  from step_specD [OF assms(1), of i f s] obtain a where it: "iteration send disk body i f s a" ..
  note a = iteration_attempt(1,2) [OF it]
  let ?fin = "deliverLoop body (Suc i) fs ?s1"
  show ?case
  proof (cases "snd (send (calls s) f)")
    case (Inl e)
    from iteration_Inl [OF it Inl] Cons.prems have f1: "\<not> uploaded a" "written a = None"
        "sentFiles ?s1 = JArr xs" "persisted ?s1 = persisted s"
      by simp_all
    from Cons.IH [OF f1(3), of "Suc i"] obtain as where
      as: "attempts ?fin = attempts ?s1 @ as" "map path as = fs"
        "sentFiles ?fin = JArr (xs @ map JStr (delivered as))"
        "persisted ?fin = persisted ?s1 \<or> persisted ?fin = Unparsable
           \<or> (\<exists>j \<le> length as. persisted ?fin = Parsed (JArr (xs @ map JStr (delivered (take j as)))))"
        "(\<forall>a \<in> set as. written a \<noteq> None \<longrightarrow> caught a = None) \<longrightarrow>
           persisted ?fin = (if delivered as = [] then persisted ?s1
                             else Parsed (JArr (xs @ map JStr (delivered as))))"
      by blast
    have d: "delivered (a # as) = delivered as" using f1(1) by (simp add: delivered_Cons)
    have p: "persisted ?fin = persisted s \<or> persisted ?fin = Unparsable
           \<or> (\<exists>j \<le> length (a # as). persisted ?fin
                 = Parsed (JArr (xs @ map JStr (delivered (take j (a # as))))))"
    proof -
      from as(4) consider "persisted ?fin = persisted ?s1" | "persisted ?fin = Unparsable"
        | j where "j \<le> length as" "persisted ?fin = Parsed (JArr (xs @ map JStr (delivered (take j as))))"
        by blast
      then show ?thesis
      proof cases
        case 1
        then show ?thesis using f1(4) by simp
      next
        case 2
        then show ?thesis by simp
      next
        case 3
        have "delivered (take (Suc j) (a # as)) = delivered (take j as)"
          using f1(1) by (simp add: delivered_Cons)
        with 3 have "Suc j \<le> length (a # as) \<and> persisted ?fin
            = Parsed (JArr (xs @ map JStr (delivered (take (Suc j) (a # as)))))"
          by simp
        then show ?thesis by blast
      qed
    qed
    have q: "(\<forall>b \<in> set (a # as). written b \<noteq> None \<longrightarrow> caught b = None) \<longrightarrow>
           persisted ?fin = (if delivered (a # as) = [] then persisted s
                             else Parsed (JArr (xs @ map JStr (delivered (a # as)))))"
      using as(5) f1(4) d by simp
    show ?thesis
      apply (rule exI [of _ "a # as"])
      apply (intro conjI)
          apply (simp add: a as)
         apply (simp add: a as)
        apply (simp add: as d)
       apply (simp only: deliverLoop.simps, rule p)
      apply (simp only: deliverLoop.simps, rule q)
      done
  next
    case (Inr b)
    note r1 = iteration_Inr_array [OF it Inr Cons.prems]
    have f1: "uploaded a" "written a \<noteq> None"
        "sentFiles ?s1 = JArr (xs @ [JStr f])"
        "persisted ?s1 = Parsed (JArr (xs @ [JStr f])) \<or> persisted ?s1 = Unparsable
           \<or> persisted ?s1 = persisted s"
        "caught a = None \<longrightarrow> persisted ?s1 = Parsed (JArr (xs @ [JStr f]))"
      using iteration_Inr [OF it Inr] r1 by (cases "disk (calls s)"; simp)+
    from Cons.IH [OF f1(3), of "Suc i"] obtain as where
      as: "attempts ?fin = attempts ?s1 @ as" "map path as = fs"
        "sentFiles ?fin = JArr ((xs @ [JStr f]) @ map JStr (delivered as))"
        "persisted ?fin = persisted ?s1 \<or> persisted ?fin = Unparsable
           \<or> (\<exists>j \<le> length as. persisted ?fin
                 = Parsed (JArr ((xs @ [JStr f]) @ map JStr (delivered (take j as)))))"
        "(\<forall>a \<in> set as. written a \<noteq> None \<longrightarrow> caught a = None) \<longrightarrow>
           persisted ?fin = (if delivered as = [] then persisted ?s1
                             else Parsed (JArr ((xs @ [JStr f]) @ map JStr (delivered as))))"
      by blast
    have d: "delivered (a # as) = f # delivered as" using f1(1) a(2) by (simp add: delivered_Cons)
    have dj: "delivered (take (Suc j) (a # as)) = f # delivered (take j as)" for j
      using f1(1) a(2) by (simp add: delivered_Cons)
    have p: "persisted ?fin = persisted s \<or> persisted ?fin = Unparsable
           \<or> (\<exists>j \<le> length (a # as). persisted ?fin
                 = Parsed (JArr (xs @ map JStr (delivered (take j (a # as))))))"
    proof -
      from as(4) consider "persisted ?fin = persisted ?s1" | "persisted ?fin = Unparsable"
        | j where "j \<le> length as"
            "persisted ?fin = Parsed (JArr ((xs @ [JStr f]) @ map JStr (delivered (take j as))))"
        by blast
      then show ?thesis
      proof cases
        case 1
        from f1(4) consider "persisted ?s1 = Parsed (JArr (xs @ [JStr f]))"
          | "persisted ?s1 = Unparsable" | "persisted ?s1 = persisted s"
          by blast
        then show ?thesis
        proof cases
          case 1
          with \<open>persisted ?fin = persisted ?s1\<close> dj [of 0]
          have "Suc 0 \<le> length (a # as) \<and> persisted ?fin
              = Parsed (JArr (xs @ map JStr (delivered (take (Suc 0) (a # as)))))"
            by simp
          then show ?thesis by blast
        next
          case 2
          with \<open>persisted ?fin = persisted ?s1\<close> show ?thesis by simp
        next
          case 3
          with \<open>persisted ?fin = persisted ?s1\<close> show ?thesis by simp
        qed
      next
        case 2
        then show ?thesis by simp
      next
        case 3
        with dj [of j] have "Suc j \<le> length (a # as) \<and> persisted ?fin
            = Parsed (JArr (xs @ map JStr (delivered (take (Suc j) (a # as)))))"
          by simp
        then show ?thesis by blast
      qed
    qed
    have q: "(\<forall>b \<in> set (a # as). written b \<noteq> None \<longrightarrow> caught b = None) \<longrightarrow>
           persisted ?fin = (if delivered (a # as) = [] then persisted s
                             else Parsed (JArr (xs @ map JStr (delivered (a # as)))))"
    proof
      assume all: "\<forall>b \<in> set (a # as). written b \<noteq> None \<longrightarrow> caught b = None"
      with f1(2) have "caught a = None" by simp
      with f1(5) have p1: "persisted ?s1 = Parsed (JArr (xs @ [JStr f]))" by simp
      from all as(5) have "persisted ?fin = (if delivered as = [] then persisted ?s1
                             else Parsed (JArr ((xs @ [JStr f]) @ map JStr (delivered as))))"
        by simp
      with p1 d show "persisted ?fin = (if delivered (a # as) = [] then persisted s
                             else Parsed (JArr (xs @ map JStr (delivered (a # as)))))"
        by simp
    qed
    show ?thesis
      apply (rule exI [of _ "a # as"])
      apply (intro conjI)
          apply (simp add: a as)
         apply (simp add: a as)
        apply (simp add: as d)
       apply (simp only: deliverLoop.simps, rule p)
      apply (simp only: deliverLoop.simps, rule q)
      done
  qed
qed

subsection \<open>The new files and the run\<close>

lemma initial_simps [simp]:
  "sentFiles (initial w) = loadSentFiles (sentLog w)" "attempts (initial w) = []"
  "persisted (initial w) = sentLog w" "calls (initial w) = requests w"
  "successCount (initial w) = 0" "failCount (initial w) = 0"
  by (simp_all add: initial_def)

lemma sortedFiles_props:
  "set (sortedFiles w dir) = set (getAllPngFiles dir (archives w))"
  "length (sortedFiles w dir) = length (getAllPngFiles dir (archives w))"
  "distinct (sortedFiles w dir) = distinct (getAllPngFiles dir (archives w))"
  by (simp_all add: sortedFiles_def set_Array_sort length_Array_sort distinct_Array_sort)



lemma nth_not_in_take:
  assumes "distinct xs" "k < length xs"
  shows "xs ! k \<notin> set (take k xs)"
proof -
  have "xs = take k xs @ xs ! k # drop (Suc k) xs"
    using assms(2) by (rule id_take_nth_drop)
  then have "distinct (take k xs @ xs ! k # drop (Suc k) xs)" using assms(1) by simp
  then show ?thesis by simp
qed

lemma sortedFiles_after [simp]: "sortedFiles (after w r) dir = sortedFiles w dir"
  by (simp add: sortedFiles_def after_def)

lemma after_simps [simp]:
  "sentLog (after w r) = persisted (final r)" "archives (after w r) = archives w"
  "endpoint (after w r) = endpoint w" "requests (after w r) = calls (final r)"
  "readFileSync (after w r) = readFileSync w" "writeFileSync (after w r) = writeFileSync w"
  by (simp_all add: after_def)

lemma filterNew_Inr: "filterNew v files = Inr new \<Longrightarrow> \<exists>P. new = filter P files"
  by (cases v) (auto simp: filterNew_def split: if_splits intro: exI [of _ "\<lambda>f. False"])

lemma newFilesOf_filter:
  "newFilesOf w dir = Inr new \<Longrightarrow> \<exists>P. new = filter P (sortedFiles w dir)"
  by (auto simp: newFilesOf_def Let_def split: if_splits dest: filterNew_Inr)

lemma newFilesOf_array:
  "loadSentFiles (sentLog w) = JArr xs \<Longrightarrow>
     newFilesOf w dir = Inr (filter (\<lambda>f. JStr f \<notin> set xs) (sortedFiles w dir))"
  by (simp add: newFilesOf_def filterNew_def Let_def)

text \<open>The new files are files of the archive, each once, and the sent log records none
  of them.\<close>

lemma newFilesOf_files:
  assumes "newFilesOf w dir = Inr new"
  shows "set new \<subseteq> set (getAllPngFiles dir (archives w))"
    and "wellFormedListing (archives w) \<Longrightarrow> distinct new"
    and "\<forall>f \<in> set new. existsSync dir (archives w) f"
proof -
  from newFilesOf_filter [OF assms] obtain P where P: "new = filter P (sortedFiles w dir)" ..
  show s: "set new \<subseteq> set (getAllPngFiles dir (archives w))"
    unfolding P by (auto simp: sortedFiles_props)
  show "distinct new" if "wellFormedListing (archives w)"
    unfolding P using that by (simp add: sortedFiles_props distinct_getAllPngFiles)
  from s show "\<forall>f \<in> set new. existsSync dir (archives w) f"
    by (auto intro: getAllPngFiles_exist)
qed

lemma newFilesOf_not_recorded:
  assumes "newFilesOf w dir = Inr new" and "f \<in> set new"
  shows "\<not> records (loadSentFiles (sentLog w)) f"
proof (cases "sortedFiles w dir = []")
  case True
  with assms show ?thesis
    by (auto simp: newFilesOf_def Let_def filterNew_def split: if_splits)
next
  case False
  with assms show ?thesis
    by (cases "loadSentFiles (sentLog w)")
       (auto simp: newFilesOf_def Let_def filterNew_def records_def split: if_splits)
qed

text \<open>Only an array or a string lets the loop run on a file.\<close>

lemma newFilesOf_loop_runs:
  assumes "newFilesOf w dir = Inr new" and "new \<noteq> []"
  shows "(\<exists>xs. loadSentFiles (sentLog w) = JArr xs) \<or> (\<exists>t. loadSentFiles (sentLog w) = JStr t)"
  using assms
  by (cases "loadSentFiles (sentLog w)")
     (auto simp: newFilesOf_def Let_def filterNew_def split: if_splits)

lemma sendAllArchives_run:
  "newFilesOf w dir = Inr new \<Longrightarrow>
     sendAllArchives w dir url d =
       Inr \<lparr>newFiles = new,
            final = deliverLoop (deliver w dir url d (length new)) 0 new (initial w),
            report = [Sent (successCount (deliverLoop (deliver w dir url d (length new)) 0 new (initial w))),
                      Failed (failCount (deliverLoop (deliver w dir url d (length new)) 0 new (initial w)))],
            returned = successCount (deliverLoop (deliver w dir url d (length new)) 0 new (initial w))\<rparr>"
  by (simp add: sendAllArchives_def Let_def)

lemma sendAllArchives_rev1_run:
  "newFilesOf w dir = Inr new \<Longrightarrow>
     sendAllArchives_rev1 w dir url d =
       Inr \<lparr>newFiles = new,
            final = deliverLoop (deliver_rev1 w dir url d new) 0 new (initial w),
            report = [SentNewFiles (length new)],
            returned = length new\<rparr>"
  by (simp add: sendAllArchives_rev1_def Let_def)

lemma sendAllArchives_Inr:
  assumes "sendAllArchives w dir url d = Inr r"
  shows "newFilesOf w dir = Inr (newFiles r)"
    and "final r = deliverLoop (deliver w dir url d (length (newFiles r))) 0 (newFiles r) (initial w)"
    and "report r = [Sent (successCount (final r)), Failed (failCount (final r))]"
    and "returned r = successCount (final r)"
  using assms by (auto simp: sendAllArchives_def Let_def split: sum.splits)

lemma sendAllArchives_rev1_Inr:
  assumes "sendAllArchives_rev1 w dir url d = Inr r"
  shows "newFilesOf w dir = Inr (newFiles r)"
    and "final r = deliverLoop (deliver_rev1 w dir url d (newFiles r)) 0 (newFiles r) (initial w)"
    and "report r = [SentNewFiles (length (newFiles r))]"
    and "returned r = length (newFiles r)"
  using assms by (auto simp: sendAllArchives_rev1_def Let_def split: sum.splits)

subsection \<open>Interrupted runs\<close>

lemma interrupted_Suc:
  assumes "k < length new"
  shows "interrupted body new s (Suc k) = body k (new ! k) (interrupted body new s k)"
proof -
  have "take (Suc k) new = take k new @ [new ! k]"
    using assms by (rule take_Suc_conv_app_nth)
  then show ?thesis
    using assms by (simp add: interrupted_def deliverLoop_append)
qed

lemma interrupted_all: "interrupted body new s (length new) = deliverLoop body 0 new s"
  by (simp add: interrupted_def)

lemma interrupted_0 [simp]: "interrupted body new s 0 = s"
  by (simp add: interrupted_def)

lemma interrupted_rest:
  "deliverLoop body 0 new s = deliverLoop body k (drop k new) (interrupted body new s k)"
proof (cases "k \<le> length new")
  case True
  have "deliverLoop body 0 (take k new @ drop k new) s
      = deliverLoop body (0 + length (take k new)) (drop k new) (deliverLoop body 0 (take k new) s)"
    by (rule deliverLoop_append)
  with True show ?thesis by (simp add: interrupted_def)
next
  case False
  then show ?thesis by (simp add: interrupted_def)
qed

lemma interrupted_paths:
  assumes "step_spec send disk body" and "attempts s = []"
  shows "map path (attempts (interrupted body new s k)) = take k new"
  using deliverLoop_paths [OF assms(1), of 0 "take k new" s] assms(2)
  by (auto simp: interrupted_def)

text \<open>
  The entry of the trace at position \<open>K\<close> is the one that iteration \<open>K\<close> adds, in the state
  that the iterations before it have left.
\<close>

lemma attempt_nth:
  assumes "step_spec send disk body" and "attempts s = []" and "K < length new"
  shows "iteration send disk body K (new ! K) (interrupted body new s K)
           (attempts (deliverLoop body 0 new s) ! K)"
proof -
  let ?sK = "interrupted body new s K"
  from step_specD [OF assms(1), of K "new ! K" ?sK] obtain a where
    it: "iteration send disk body K (new ! K) ?sK a" ..
  have l: "length (attempts ?sK) = K"
  proof -
    have "length (map path (attempts ?sK)) = length (take K new)"
      by (simp only: interrupted_paths [OF assms(1,2)])
    with assms(3) show ?thesis by simp
  qed
  have "attempts (interrupted body new s (Suc K)) = attempts ?sK @ [a]"
    using iteration_attempt(1) [OF it] by (simp add: interrupted_Suc [OF assms(3)])
  moreover from deliverLoop_paths [OF assms(1), of "Suc K" "drop (Suc K) new"
      "interrupted body new s (Suc K)"]
  obtain as where "attempts (deliverLoop body (Suc K) (drop (Suc K) new) (interrupted body new s (Suc K)))
      = attempts (interrupted body new s (Suc K)) @ as"
    by blast
  ultimately have "attempts (deliverLoop body 0 new s) = attempts ?sK @ [a] @ as"
    by (simp add: interrupted_rest [of body new s "Suc K"])
  with l have "attempts (deliverLoop body 0 new s) ! K = a"
    by (simp add: nth_append)
  with it show ?thesis by simp
qed

subsection \<open>Counters and waits of the second revision\<close>

lemma setTimeout_60000 [simp]: "setTimeout 60000 = 60000"
  by (simp add: setTimeout_def)

text \<open>One iteration of the second revision, for any state: the wait, and the counters.
  \<open>successCount\<close> counts the files appended to \<open>sentFiles\<close>, \<open>failCount\<close> the errors caught.\<close>

lemma deliver_attempt:
  "\<exists>a. attempts (deliver w dir url d n i f s) = attempts s @ [a] \<and> path a = f
      \<and> (case caught a of
            Some m \<Rightarrow> timeout a = (if rateLimited m then Some 60000 else None)
          | None \<Rightarrow> timeout a = (if int i < int n - 1 then Some (setTimeout d) else None))
      \<and> successCount (deliver w dir url d n i f s)
           = successCount s + (if written a \<noteq> None then 1 else 0)
      \<and> failCount (deliver w dir url d n i f s)
           = failCount s + (if caught a \<noteq> None then 1 else 0)"
proof -
  let ?send = "sendToDiscord (existsSync dir (archives w)) (readFileSync w) (endpoint w (calls s)) f url"
  obtain c r where sr: "?send = (c, r)" by (cases ?send)
  show ?thesis
  proof (cases r)
    case (Inl e)
    with sr show ?thesis by (simp add: deliver_def catchBlock_def)
  next
    case (Inr b)
    with sr show ?thesis
      by (cases "sentFiles s"; cases "writeFileSync w (calls s)")
         (simp_all add: deliver_def catchBlock_def)
  qed
qed

lemma deliverLoop_attempts:
  "\<exists>as. attempts (deliverLoop (deliver w dir url d n) i fs s) = attempts s @ as
      \<and> map path as = fs
      \<and> (\<forall>j < length as. case caught (as ! j) of
            Some m \<Rightarrow> timeout (as ! j) = (if rateLimited m then Some 60000 else None)
          | None \<Rightarrow> timeout (as ! j)
              = (if int (i + j) < int n - 1 then Some (setTimeout d) else None))
      \<and> successCount (deliverLoop (deliver w dir url d n) i fs s)
           = successCount s + length (filter (\<lambda>a. written a \<noteq> None) as)
      \<and> failCount (deliverLoop (deliver w dir url d n) i fs s)
           = failCount s + length (filter (\<lambda>a. caught a \<noteq> None) as)"
proof (induction fs arbitrary: i s)
  case Nil
  then show ?case by simp
next
  case (Cons f fs)
  let ?s1 = "deliver w dir url d n i f s"
  from deliver_attempt [of w dir url d n i f s] obtain a where
    a: "attempts ?s1 = attempts s @ [a]" "path a = f"
      "case caught a of
            Some m \<Rightarrow> timeout a = (if rateLimited m then Some 60000 else None)
          | None \<Rightarrow> timeout a = (if int i < int n - 1 then Some (setTimeout d) else None)"
      "successCount ?s1 = successCount s + (if written a \<noteq> None then 1 else 0)"
      "failCount ?s1 = failCount s + (if caught a \<noteq> None then 1 else 0)"
    by (elim exE conjE)
  from Cons.IH [of "Suc i" ?s1] obtain as where
    as: "attempts (deliverLoop (deliver w dir url d n) (Suc i) fs ?s1) = attempts ?s1 @ as"
      "map path as = fs"
      "\<forall>j < length as. case caught (as ! j) of
            Some m \<Rightarrow> timeout (as ! j) = (if rateLimited m then Some 60000 else None)
          | None \<Rightarrow> timeout (as ! j)
              = (if int (Suc i + j) < int n - 1 then Some (setTimeout d) else None)"
      "successCount (deliverLoop (deliver w dir url d n) (Suc i) fs ?s1)
           = successCount ?s1 + length (filter (\<lambda>a. written a \<noteq> None) as)"
      "failCount (deliverLoop (deliver w dir url d n) (Suc i) fs ?s1)
           = failCount ?s1 + length (filter (\<lambda>a. caught a \<noteq> None) as)"
    by (elim exE conjE)
  have t: "\<forall>j < length (a # as). case caught ((a # as) ! j) of
            Some m \<Rightarrow> timeout ((a # as) ! j) = (if rateLimited m then Some 60000 else None)
          | None \<Rightarrow> timeout ((a # as) ! j)
              = (if int (i + j) < int n - 1 then Some (setTimeout d) else None)"
  proof (intro allI impI)
    fix j assume j: "j < length (a # as)"
    show "case caught ((a # as) ! j) of
            Some m \<Rightarrow> timeout ((a # as) ! j) = (if rateLimited m then Some 60000 else None)
          | None \<Rightarrow> timeout ((a # as) ! j)
              = (if int (i + j) < int n - 1 then Some (setTimeout d) else None)"
    proof (cases j)
      case 0
      then show ?thesis using a(3) by (auto split: option.splits)
    next
      case (Suc k)
      with j have "k < length as" by simp
      with as(3) have "case caught (as ! k) of
            Some m \<Rightarrow> timeout (as ! k) = (if rateLimited m then Some 60000 else None)
          | None \<Rightarrow> timeout (as ! k)
              = (if int (Suc i + k) < int n - 1 then Some (setTimeout d) else None)"
        by blast
      moreover have "i + j = Suc i + k" using Suc by simp
      ultimately show ?thesis unfolding Suc nth_Cons_Suc by (simp only:)
    qed
  qed
  have sc: "successCount (deliverLoop (deliver w dir url d n) i (f # fs) s)
           = successCount s + length (filter (\<lambda>a. written a \<noteq> None) (a # as))"
    using a(4) as(4) by simp
  have fc: "failCount (deliverLoop (deliver w dir url d n) i (f # fs) s)
           = failCount s + length (filter (\<lambda>a. caught a \<noteq> None) (a # as))"
    using a(5) as(5) by simp
  show ?case
    apply (rule exI [of _ "a # as"])
    using a(1,2) as(1,2) t sc fc by simp
qed

text \<open>The second revision counts: what it reports and returns is read off the trace.\<close>

lemma sendAllArchives_counts:
  assumes "sendAllArchives w dir url d = Inr r"
  shows "map path (attempts (final r)) = newFiles r"
    and "returned r = length (filter (\<lambda>a. written a \<noteq> None) (attempts (final r)))"
    and "report r = [Sent (length (filter (\<lambda>a. written a \<noteq> None) (attempts (final r)))),
                     Failed (length (filter (\<lambda>a. caught a \<noteq> None) (attempts (final r))))]"
proof -
  note f = sendAllArchives_Inr [OF assms]
  from deliverLoop_attempts [of w dir url d "length (newFiles r)" 0 "newFiles r" "initial w"] f(2)
  obtain as where as: "attempts (final r) = as" "map path as = newFiles r"
    "successCount (final r) = length (filter (\<lambda>a. written a \<noteq> None) as)"
    "failCount (final r) = length (filter (\<lambda>a. caught a \<noteq> None) as)"
    by auto
  show "map path (attempts (final r)) = newFiles r" using as by simp
  show "returned r = length (filter (\<lambda>a. written a \<noteq> None) (attempts (final r)))"
    using f(4) as by simp
  show "report r = [Sent (length (filter (\<lambda>a. written a \<noteq> None) (attempts (final r)))),
                     Failed (length (filter (\<lambda>a. caught a \<noteq> None) (attempts (final r))))]"
    using f(3) as by simp
qed

lemma sendAllArchives_timeouts:
  assumes "sendAllArchives w dir url d = Inr r"
  shows "\<forall>j < length (attempts (final r)). case caught (attempts (final r) ! j) of
            Some m \<Rightarrow> timeout (attempts (final r) ! j) = (if rateLimited m then Some 60000 else None)
          | None \<Rightarrow> timeout (attempts (final r) ! j)
              = (if j + 1 < length (attempts (final r)) then Some (setTimeout d) else None)"
proof -
  note f = sendAllArchives_Inr [OF assms]
  from deliverLoop_attempts [of w dir url d "length (newFiles r)" 0 "newFiles r" "initial w"] f(2)
  obtain as where as: "attempts (final r) = as" "map path as = newFiles r"
    "\<forall>j < length as. case caught (as ! j) of
            Some m \<Rightarrow> timeout (as ! j) = (if rateLimited m then Some 60000 else None)
          | None \<Rightarrow> timeout (as ! j)
              = (if int (0 + j) < int (length (newFiles r)) - 1 then Some (setTimeout d) else None)"
    by auto
  have l: "length (newFiles r) = length as" using as(2) by (metis length_map)
  have eq: "(int (0 + j) < int (length (newFiles r)) - 1) = (j + 1 < length (attempts (final r)))" for j
    unfolding l as(1) by auto
  from as(3) show ?thesis unfolding eq as(1) [symmetric] .
qed

subsection \<open>Runs in which every delivery succeeds\<close>

lemma sendToDiscord_accepted:
  assumes "url \<noteq> None" "url \<noteq> Some []" "ex f" "rd f = None"
    and "\<exists>status body. res = Response status body \<and> response_ok status"
  shows "sendToDiscord ex rd res f url = (True, Inr True)"
  using assms by (auto simp: sendToDiscord_def)

lemma sendToDiscord_rev1_accepted:
  assumes "url \<noteq> None" "url \<noteq> Some []" "ex f"
    and "\<exists>status body. res = Response status body \<and> response_ok status"
  shows "sendToDiscord_rev1 ex res f url = (True, Inr True)"
  using assms by (auto simp: sendToDiscord_rev1_def)

text \<open>Where every call of \<open>sendToDiscord\<close> returns and every write succeeds, an array in
  \<open>sentFiles\<close> receives every file, and the last write leaves the whole array on disk.\<close>

lemma deliverLoop_all_accepted:
  assumes "step_spec send disk body" and "sentFiles s = JArr xs"
    and "\<forall>c. \<forall>f \<in> set fs. \<exists>b. snd (send c f) = Inr b" and "\<forall>c. disk c = Written"
  shows "sentFiles (deliverLoop body i fs s) = JArr (xs @ map JStr fs)
       \<and> persisted (deliverLoop body i fs s)
           = (if fs = [] then persisted s else Parsed (JArr (xs @ map JStr fs)))"
  using assms(2,3)
proof (induction fs arbitrary: i s xs)
  case Nil
  then show ?case by simp
next
  case (Cons f fs)
  from step_specD [OF assms(1), of i f s] obtain a where it: "iteration send disk body i f s a" ..
  from Cons.prems(2) obtain b where b: "snd (send (calls s) f) = Inr b" by auto
  from assms(4) have w: "disk (calls s) = Written" by simp
  note r = iteration_Inr_array [OF it b Cons.prems(1)]
  have s1: "sentFiles (body i f s) = JArr (xs @ [JStr f])" by (rule r(1))
  have p1: "persisted (body i f s) = Parsed (JArr (xs @ [JStr f]))" by (rule r(4) [OF w])
  from Cons.prems(2) have "\<forall>c. \<forall>f \<in> set fs. \<exists>b. snd (send c f) = Inr b" by simp
  from Cons.IH [OF s1 this, of "Suc i"] p1 show ?case by simp
qed

lemma second_run_nothing_new:
  "filter (\<lambda>f. JStr f \<notin> set (xs @ map JStr (filter (\<lambda>f. JStr f \<notin> set xs) files))) files = []"
  by (auto simp: filter_empty_conv)

lemma accepted_run_log:
  assumes "step_spec send (writeFileSync w) body" and "loadSentFiles (sentLog w) = JArr xs"
    and "\<forall>c. \<forall>f \<in> set new. \<exists>b. snd (send c f) = Inr b" and "\<forall>n. writeFileSync w n = Written"
  shows "loadSentFiles (persisted (deliverLoop body 0 new (initial w))) = JArr (xs @ map JStr new)"
proof -
  have s0: "sentFiles (initial w) = JArr xs" using assms(2) by simp
  from deliverLoop_all_accepted [OF assms(1) s0 assms(3,4), of 0]
  have "persisted (deliverLoop body 0 new (initial w))
      = (if new = [] then sentLog w else Parsed (JArr (xs @ map JStr new)))"
    by simp
  with assms(2) show ?thesis by (simp add: loadSentFiles_def)
qed

text \<open>A run on a sent log that records every file of the archive has nothing to do.\<close>

lemma nothing_new_run:
  assumes "loadSentFiles (sentLog v) = JArr ys"
    and "filter (\<lambda>f. JStr f \<notin> set ys) (sortedFiles v dir) = []"
  shows "sendAllArchives v dir url d
           = Inr \<lparr>newFiles = [], final = initial v, report = [Sent 0, Failed 0], returned = 0\<rparr>"
    and "sendAllArchives_rev1 v dir url d
           = Inr \<lparr>newFiles = [], final = initial v, report = [SentNewFiles 0], returned = 0\<rparr>"
proof -
  from newFilesOf_array [OF assms(1), of dir] assms(2) have n: "newFilesOf v dir = Inr []" by simp
  show "sendAllArchives v dir url d
           = Inr \<lparr>newFiles = [], final = initial v, report = [Sent 0, Failed 0], returned = 0\<rparr>"
    by (simp add: sendAllArchives_run [OF n])
  show "sendAllArchives_rev1 v dir url d
           = Inr \<lparr>newFiles = [], final = initial v, report = [SentNewFiles 0], returned = 0\<rparr>"
    by (simp add: sendAllArchives_rev1_run [OF n])
qed

subsection \<open>Files whose delivery failed\<close>

lemma delivered_nth:
  assumes "distinct (map path as)" and "K < length as" and "\<not> uploaded (as ! K)"
  shows "path (as ! K) \<notin> set (delivered as)"
proof
  assume "path (as ! K) \<in> set (delivered as)"
  then obtain a where a: "a \<in> set as" "uploaded a" "path a = path (as ! K)"
    by (auto simp: delivered_def)
  from a(1) obtain j where j: "j < length as" "as ! j = a" by (auto simp: in_set_conv_nth)
  from assms(1) j(1) assms(2) a(3) j(2) have "j = K"
    by (simp add: nth_eq_iff_index_eq [symmetric])
  with j(2) a(2) assms(3) show False by simp
qed

text \<open>A file of the work queue that was not uploaded is recorded neither in \<open>sentFiles\<close>
  nor in the sent log at the end of the loop.\<close>

lemma not_uploaded_not_recorded:
  assumes "step_spec send disk body" and "distinct new"
    and "\<forall>f \<in> set new. \<not> records (loadSentFiles (sentLog w)) f"
    and "K < length new"
    and "\<not> uploaded (attempts (deliverLoop body 0 new (initial w)) ! K)"
  shows "\<not> records (sentFiles (deliverLoop body 0 new (initial w))) (new ! K)"
    and "\<not> records (loadSentFiles (persisted (deliverLoop body 0 new (initial w)))) (new ! K)"
proof -
  let ?fin = "deliverLoop body 0 new (initial w)"
  from assms(3,4) have nr: "\<not> records (loadSentFiles (sentLog w)) (new ! K)" by simp
  have "\<not> records (sentFiles ?fin) (new ! K)
      \<and> \<not> records (loadSentFiles (persisted ?fin)) (new ! K)"
  proof (cases "\<exists>xs. loadSentFiles (sentLog w) = JArr xs")
    case False
    then have "\<forall>xs. sentFiles (initial w) \<noteq> JArr xs" by simp
    from deliverLoop_not_array [OF assms(1) this, of 0 new] nr show ?thesis by simp
  next
    case True
    then obtain xs where xs: "loadSentFiles (sentLog w) = JArr xs" ..
    then have s0: "sentFiles (initial w) = JArr xs" by simp
    from deliverLoop_trace [OF assms(1) s0, of 0 new] obtain as where
      as: "attempts ?fin = as" "map path as = new"
        "sentFiles ?fin = JArr (xs @ map JStr (delivered as))"
        "persisted ?fin = sentLog w \<or> persisted ?fin = Unparsable
           \<or> (\<exists>j \<le> length as. persisted ?fin = Parsed (JArr (xs @ map JStr (delivered (take j as)))))"
      by auto
    have l: "length as = length new" using as(2) by (metis length_map)
    have p: "path (as ! K) = new ! K"
      using as(2) assms(4) l by (metis nth_map)
    from assms(2) as(2) have dp: "distinct (map path as)" by simp
    from assms(4) l have Kl: "K < length as" by simp
    from assms(5) as(1) have nu: "\<not> uploaded (as ! K)" by simp
    from delivered_nth [OF dp Kl nu] p
    have nd: "new ! K \<notin> set (delivered as)" by simp
    from nr xs have nx: "JStr (new ! K) \<notin> set xs" by (simp add: records_def)
    have 1: "\<not> records (sentFiles ?fin) (new ! K)"
      using nd nx by (auto simp: as(3) records_def)
    from as(4) consider "persisted ?fin = sentLog w" | "persisted ?fin = Unparsable"
      | j where "persisted ?fin = Parsed (JArr (xs @ map JStr (delivered (take j as))))"
      by blast
    then have 2: "\<not> records (loadSentFiles (persisted ?fin)) (new ! K)"
    proof cases
      case 1
      with nr show ?thesis by simp
    next
      case 2
      then show ?thesis by (simp add: loadSentFiles_def records_def)
    next
      case 3
      from nd delivered_take_subset [of j as] have "new ! K \<notin> set (delivered (take j as))"
        by auto
      with 3 nx show ?thesis by (auto simp: loadSentFiles_def records_def)
    qed
    from 1 2 show ?thesis by simp
  qed
  then show "\<not> records (sentFiles ?fin) (new ! K)"
    and "\<not> records (loadSentFiles (persisted ?fin)) (new ! K)"
    by simp_all
qed

text \<open>The loop over a work queue, iteration by iteration.\<close>

lemma loop_by_iteration:
  assumes "step_spec send (writeFileSync w) body" and "wellFormedListing (archives w)"
    and "newFilesOf w dir = Inr new" and "fin = deliverLoop body 0 new (initial w)"
  shows "map path (attempts fin) = new
       \<and> (\<forall>K < length new.
            fetched (attempts fin ! K)
              = fst (send (calls (interrupted body new (initial w) K)) (new ! K))
          \<and> calls (interrupted body new (initial w) (Suc K))
              = calls (interrupted body new (initial w) K)
                + (if fst (send (calls (interrupted body new (initial w) K)) (new ! K)) then 1 else 0)
          \<and> (\<forall>e. snd (send (calls (interrupted body new (initial w) K)) (new ! K)) = Inl e \<longrightarrow>
                caught (attempts fin ! K) = Some (message e)
              \<and> \<not> uploaded (attempts fin ! K)
              \<and> \<not> records (sentFiles fin) (new ! K)
              \<and> \<not> records (loadSentFiles (persisted fin)) (new ! K)))"
proof (intro conjI allI impI)
  from deliverLoop_paths [OF assms(1), of 0 new "initial w"] assms(4)
  show "map path (attempts fin) = new" by auto
next
  fix K assume K: "K < length new"
  let ?sK = "interrupted body new (initial w) K"
  have a0: "attempts (initial w) = []" by simp
  note it = attempt_nth [OF assms(1) a0 K, folded assms(4)]
  show "fetched (attempts fin ! K) = fst (send (calls ?sK) (new ! K))"
    by (rule iteration_attempt(3) [OF it])
  show "calls (interrupted body new (initial w) (Suc K))
      = calls ?sK + (if fst (send (calls ?sK) (new ! K)) then 1 else 0)"
    using iteration_attempt(3,4) [OF it] by (simp add: interrupted_Suc [OF K])
  fix e assume e: "snd (send (calls ?sK) (new ! K)) = Inl e"
  note l = iteration_Inl [OF it e]
  show "caught (attempts fin ! K) = Some (message e)" by (rule l(3))
  show u: "\<not> uploaded (attempts fin ! K)" by (rule l(1))
  note files = newFilesOf_files [OF assms(3)]
  have nr: "\<forall>f \<in> set new. \<not> records (loadSentFiles (sentLog w)) f"
    using newFilesOf_not_recorded [OF assms(3)] by blast
  from u have u': "\<not> uploaded (attempts (deliverLoop body 0 new (initial w)) ! K)"
    by (simp add: assms(4))
  note n = not_uploaded_not_recorded [OF assms(1) files(2) [OF assms(2)] nr K u', folded assms(4)]
  show "\<not> records (sentFiles fin) (new ! K)" by (rule n(1))
  show "\<not> records (loadSentFiles (persisted fin)) (new ! K)" by (rule n(2))
qed

subsection \<open>Day numbers\<close>

lemma div_succ:
  fixes a n :: int
  assumes "0 < n"
  shows "(a + 1) div n = a div n + (if (a + 1) mod n = 0 then 1 else 0)"
proof -
  define q r where "q = a div n" and "r = a mod n"
  have a: "a = q * n + r" and r: "0 \<le> r" "r < n"
    using assms by (simp_all add: q_def r_def)
  show ?thesis
  proof (cases "r + 1 = n")
    case True
    then have "a + 1 = (q + 1) * n" using a by (simp add: algebra_simps)
    then show ?thesis using assms by (simp add: q_def [symmetric])
  next
    case False
    with r have r1: "0 \<le> r + 1" "r + 1 < n" by auto
    have e: "a + 1 = q * n + (r + 1)" using a by simp
    have "(a + 1) div n = q" unfolding e using r1 by (simp add: div_pos_pos_trivial)
    moreover have "(a + 1) mod n = r + 1" unfolding e using r1 by (simp add: mod_pos_pos_trivial)
    ultimately show ?thesis using r by (simp add: q_def [symmetric])
  qed
qed

lemma mod_shift:
  fixes y :: int
  shows "(y - k * n) mod n = y mod n"
proof -
  have "(y - k * n) mod n = (y + (- k) * n) mod n" by simp
  also have "\<dots> = y mod n" by (rule mod_mult_self1)
  finally show ?thesis .
qed

lemma d4: "((y::int) - 1968) div 4 = (y - 1969) div 4 + (if y mod 4 = 0 then 1 else 0)"
  using div_succ [of 4 "y - 1969"] mod_shift [of y 492 4] by simp

lemma d100: "((y::int) - 1900) div 100 = (y - 1901) div 100 + (if y mod 100 = 0 then 1 else 0)"
  using div_succ [of 100 "y - 1901"] mod_shift [of y 19 100] by simp

lemma d400: "((y::int) - 1600) div 400 = (y - 1601) div 400 + (if y mod 400 = 0 then 1 else 0)"
  using div_succ [of 400 "y - 1601"] mod_shift [of y 4 400] by simp

lemma leap_cases:
  fixes y :: int
  shows "y mod 100 = 0 \<Longrightarrow> y mod 4 = 0" and "y mod 400 = 0 \<Longrightarrow> y mod 100 = 0"
proof -
  have "(4 :: int) dvd 100" "(100 :: int) dvd 400" by simp_all
  then show "y mod 100 = 0 \<Longrightarrow> y mod 4 = 0" "y mod 400 = 0 \<Longrightarrow> y mod 100 = 0"
    by (metis dvd_trans mod_0_imp_dvd dvd_imp_mod_0)+
qed

lemma DayFromYear_Suc:
  "DayFromYear (y + 1) = DayFromYear y + (if InLeapYear y then 366 else 365)"
proof -
  define a b c where "a = (y - 1969) div 4" and "b = (y - 1901) div 100" and "c = (y - 1601) div 400"
  have e: "y + 1 - 1969 = y - 1968" "y + 1 - 1901 = y - 1900" "y + 1 - 1601 = y - 1600"
    by simp_all
  have l: "DayFromYear (y + 1) = 365 * (y - 1970) + 365
      + (a + (if y mod 4 = 0 then 1 else 0)) - (b + (if y mod 100 = 0 then 1 else 0))
      + (c + (if y mod 400 = 0 then 1 else 0))"
    unfolding DayFromYear_def e d4 d100 d400 a_def b_def c_def by simp
  have r: "DayFromYear y = 365 * (y - 1970) + a - b + c"
    unfolding DayFromYear_def a_def b_def c_def by simp
  show ?thesis
  proof (cases "y mod 400 = 0")
    case True
    with leap_cases [of y] have "y mod 100 = 0" "y mod 4 = 0" by simp_all
    with True show ?thesis unfolding l r InLeapYear_def by simp
  next
    case n400: False
    show ?thesis
    proof (cases "y mod 100 = 0")
      case True
      with leap_cases(1) [of y] have "y mod 4 = 0" by simp
      with True n400 show ?thesis unfolding l r InLeapYear_def by simp
    next
      case False
      with n400 show ?thesis unfolding l r InLeapYear_def by simp
    qed
  qed
qed

lemma DayFromYear_1971: "1971 \<le> y \<Longrightarrow> 365 \<le> DayFromYear y"
proof (induction y rule: int_ge_induct)
  case base
  then show ?case by (simp add: DayFromYear_def)
next
  case (step i)
  then show ?case unfolding DayFromYear_Suc by (simp split: if_splits)
qed

lemma DayFromYear_1970: "DayFromYear 1970 = 0"
  by (simp add: DayFromYear_def)

lemma indexOf_less: "indexOf xs x = Some i \<Longrightarrow> i < length xs"
  by (induction xs arbitrary: i) (auto split: if_splits)

lemma month_index: "indexOf months g = Some m \<Longrightarrow> m < 12"
  using indexOf_less [of months g m] by (simp add: months_def)

lemma less_12_cases:
  "m < 12 \<Longrightarrow> m = 0 \<or> m = 1 \<or> m = 2 \<or> m = 3 \<or> m = 4 \<or> m = 5 \<or> m = 6 \<or> m = 7 \<or> m = 8
     \<or> m = 9 \<or> m = 10 \<or> m = (11 :: nat)"
  by arith

lemma MonthStart_bounds:
  assumes "m < 12"
  shows "0 \<le> MonthStart y m" and "MonthStart y m < MonthStart y (m + 1)"
    and "MonthStart y (m + 1) \<le> (if InLeapYear y then 366 else 365)"
    and "0 < m \<Longrightarrow> 31 \<le> MonthStart y m"
  using less_12_cases [OF assms] by (auto simp: MonthStart_def)

lemma Day_MakeDay: "Day (MakeDay y m d * msPerDay) = MakeDay y m d"
  by (simp add: Day_def msPerDay_def)

lemma date_fields_MakeDay:
  assumes "m < 12" "1 \<le> d" "d \<le> DaysInMonth y m"
  shows "date_fields (MakeDay y m d * msPerDay) y m d"
proof -
  note b = MonthStart_bounds [OF assms(1), of y]
  have "MonthStart y m + d - 1 < MonthStart y (m + 1)"
    using assms(3) by (simp add: DaysInMonth_def)
  with b(3) have "MonthStart y m + d - 1 < (if InLeapYear y then 366 else 365)" by auto
  then have up: "MakeDay y m d < DayFromYear (y + 1)"
    unfolding DayFromYear_Suc MakeDay_def by (auto split: if_splits)
  have lo: "DayFromYear y \<le> MakeDay y m d"
    using b(1) assms(2) by (simp add: MakeDay_def)
  show ?thesis
    unfolding date_fields_def Day_MakeDay
    using lo up assms by (simp add: MakeDay_def DaysInMonth_def)
qed

lemma MakeDay_after_epoch:
  assumes "m < 12" "1 \<le> d" "1970 < y \<or> y = 1970 \<and> (0 < m \<or> 1 < d)"
  shows "1 \<le> MakeDay y m d"
proof (cases "1970 < y")
  case True
  then have "365 \<le> DayFromYear y" by (intro DayFromYear_1971) simp
  with MonthStart_bounds(1) [OF assms(1), of y] assms(2) show ?thesis
    by (simp add: MakeDay_def)
next
  case False
  with assms(3) have y: "y = 1970" and md: "0 < m \<or> 1 < d" by auto
  show ?thesis
  proof (cases "0 < m")
    case True
    from MonthStart_bounds(4) [OF assms(1) True, of y] assms(2) show ?thesis
      by (simp add: MakeDay_def y DayFromYear_1970)
  next
    case False
    with md have "1 < d" by simp
    with MonthStart_bounds(1) [OF assms(1), of y] show ?thesis
      by (simp add: MakeDay_def y DayFromYear_1970)
  qed
qed

subsection \<open>The example archive\<close>


lemma example_sorted:
  "sortedFiles (exampleWorld l net) ''archives'' =
     [''archives/2024/January/1 January 2024.png'', ''archives/2024/January/15 January 2024.png'',
      ''archives/2024/February/3 February 2024.png'']"
  by code_simp

lemma example_wellFormed: "wellFormedListing (Some exampleArchive)"
  by code_simp

lemma example_exists:
  "existsSync ''archives'' (Some exampleArchive) ''archives/2024/January/1 January 2024.png''"
  "existsSync ''archives'' (Some exampleArchive) ''archives/2024/January/15 January 2024.png''"
  "existsSync ''archives'' (Some exampleArchive) ''archives/2024/February/3 February 2024.png''"
  by code_simp+

lemma exampleWorld_simps [simp]:
  "archives (exampleWorld l net) = Some exampleArchive" "sentLog (exampleWorld l net) = l"
  "endpoint (exampleWorld l net) = net" "requests (exampleWorld l net) = 0"
  "readFileSync (exampleWorld l net) = (\<lambda>p. None)"
  "writeFileSync (exampleWorld l net) = (\<lambda>n. Written)"
  "localTZA (exampleWorld l net) = (\<lambda>t. 0)"
  by (simp_all add: exampleWorld_def)

lemma example_run:
  "sendAllArchives (exampleWorld Absent exampleEndpoint) ''archives''
       (Some ''https://discord.test/hook'') d =
     Inr \<lparr>newFiles =
        [''archives/2024/January/1 January 2024.png'',
         ''archives/2024/January/15 January 2024.png'',
         ''archives/2024/February/3 February 2024.png''],
        final =
          \<lparr>sentFiles =
             JArr [JStr ''archives/2024/January/1 January 2024.png'',
                   JStr ''archives/2024/February/3 February 2024.png''],
            successCount = 2, failCount = 1,
            persisted =
              Parsed (JArr [JStr ''archives/2024/January/1 January 2024.png'',
                            JStr ''archives/2024/February/3 February 2024.png'']),
            calls = 3,
            attempts =
              [\<lparr>path = ''archives/2024/January/1 January 2024.png'',
                fetched = True,
                uploaded = True,
                written = Some (JArr [JStr ''archives/2024/January/1 January 2024.png'']),
                caught = None,
                timeout = Some (setTimeout d)\<rparr>,
               \<lparr>path = ''archives/2024/January/15 January 2024.png'',
                fetched = True,
                uploaded = False,
                written = None,
                caught = Some ''Discord API error (429): You are being rate limited.'',
                timeout = Some 60000\<rparr>,
               \<lparr>path = ''archives/2024/February/3 February 2024.png'',
                fetched = True,
                uploaded = True,
                written = Some (JArr [JStr ''archives/2024/January/1 January 2024.png'',
                                      JStr ''archives/2024/February/3 February 2024.png'']),
                caught = None,
                timeout = None\<rparr>]\<rparr>,
        report = [Sent 2, Failed 1], returned = 2\<rparr>"
  by code_simp

lemma example_run_rev1:
  "sendAllArchives_rev1 (exampleWorld Absent exampleEndpoint) ''archives''
       (Some ''https://discord.test/hook'') d =
     Inr \<lparr>newFiles =
        [''archives/2024/January/1 January 2024.png'',
         ''archives/2024/January/15 January 2024.png'',
         ''archives/2024/February/3 February 2024.png''],
        final =
          \<lparr>sentFiles =
             JArr [JStr ''archives/2024/January/1 January 2024.png'',
                   JStr ''archives/2024/February/3 February 2024.png''],
            successCount = 0, failCount = 0,
            persisted =
              Parsed (JArr [JStr ''archives/2024/January/1 January 2024.png'',
                            JStr ''archives/2024/February/3 February 2024.png'']),
            calls = 3,
            attempts =
              [\<lparr>path = ''archives/2024/January/1 January 2024.png'',
                fetched = True,
                uploaded = True,
                written = Some (JArr [JStr ''archives/2024/January/1 January 2024.png'']),
                caught = None,
                timeout = Some (setTimeout d)\<rparr>,
               \<lparr>path = ''archives/2024/January/15 January 2024.png'',
                fetched = True,
                uploaded = False,
                written = None,
                caught = Some ''Discord API error (429): You are being rate limited.'',
                timeout = None\<rparr>,
               \<lparr>path = ''archives/2024/February/3 February 2024.png'',
                fetched = True,
                uploaded = True,
                written = Some (JArr [JStr ''archives/2024/January/1 January 2024.png'',
                                      JStr ''archives/2024/February/3 February 2024.png'']),
                caught = None,
                timeout = None\<rparr>]\<rparr>,
        report = [SentNewFiles 3], returned = 3\<rparr>"
  by code_simp


text \<open>Runs on a sent log that holds a string.\<close>

lemma string_log_run:
  "sendAllArchives ((exampleWorld (Parsed (JStr ''done'')) (\<lambda>n. Response 204 []))\<lparr>requests := c\<rparr>) ''archives''
       (Some ''https://discord.test/hook'') 2000 =
     Inr \<lparr>newFiles = [''archives/2024/January/1 January 2024.png'',
           ''archives/2024/January/15 January 2024.png'',
           ''archives/2024/February/3 February 2024.png''],
        final =
          \<lparr>sentFiles = JStr ''done'',
           successCount = 0, failCount = 3,
           persisted = Parsed (JStr ''done''),
           calls = c + 3,
           attempts =
             [\<lparr>path = ''archives/2024/January/1 January 2024.png'',
                fetched = True, uploaded = True,
                written = None,
                caught = Some ''sentFiles.push is not a function'',
                timeout = None\<rparr>,
              \<lparr>path = ''archives/2024/January/15 January 2024.png'',
                fetched = True, uploaded = True,
                written = None,
                caught = Some ''sentFiles.push is not a function'',
                timeout = None\<rparr>,
              \<lparr>path = ''archives/2024/February/3 February 2024.png'',
                fetched = True, uploaded = True,
                written = None,
                caught = Some ''sentFiles.push is not a function'',
                timeout = None\<rparr>]\<rparr>,
        report = [Sent 0, Failed 3], returned = 0\<rparr>"
  by code_simp simp

lemma string_log_run_rev1:
  "sendAllArchives_rev1 ((exampleWorld (Parsed (JStr ''done'')) (\<lambda>n. Response 204 []))\<lparr>requests := c\<rparr>) ''archives''
       (Some ''https://discord.test/hook'') 2000 =
     Inr \<lparr>newFiles = [''archives/2024/January/1 January 2024.png'',
           ''archives/2024/January/15 January 2024.png'',
           ''archives/2024/February/3 February 2024.png''],
        final =
          \<lparr>sentFiles = JStr ''done'',
           successCount = 0, failCount = 0,
           persisted = Parsed (JStr ''done''),
           calls = c + 3,
           attempts =
             [\<lparr>path = ''archives/2024/January/1 January 2024.png'',
                fetched = True, uploaded = True,
                written = None,
                caught = Some ''sentFiles.push is not a function'',
                timeout = None\<rparr>,
              \<lparr>path = ''archives/2024/January/15 January 2024.png'',
                fetched = True, uploaded = True,
                written = None,
                caught = Some ''sentFiles.push is not a function'',
                timeout = None\<rparr>,
              \<lparr>path = ''archives/2024/February/3 February 2024.png'',
                fetched = True, uploaded = True,
                written = None,
                caught = Some ''sentFiles.push is not a function'',
                timeout = None\<rparr>]\<rparr>,
        report = [SentNewFiles 3], returned = 3\<rparr>"
  by code_simp simp

subsection \<open>Resuming\<close>





subsection \<open>Running twice\<close>

text \<open>
  Claim C2, as stated, fails. The sent log is whatever \<open>JSON.parse\<close> gives, and nothing
  checks that it is an array. Let it hold the JSON string \<open>"done"\<close>, and let the endpoint
  accept everything. \<open>includes\<close> then looks for substrings, so every file is new; every
  upload is accepted, \<open>push\<close> throws after it, and nothing is recorded. The second run
  uploads the three files again, and the second revision reports 0 sent and 3 failed.
\<close>

theorem string_log_counterexample:
  "(\<exists>r1 r2. sendAllArchives (exampleWorld (Parsed (JStr ''done'')) (\<lambda>n. Response 204 []))
               ''archives'' (Some ''https://discord.test/hook'') 2000 = Inr r1
          \<and> sendAllArchives (after (exampleWorld (Parsed (JStr ''done'')) (\<lambda>n. Response 204 [])) r1)
               ''archives'' (Some ''https://discord.test/hook'') 2000 = Inr r2
          \<and> map path (attempts (final r2)) =
               [''archives/2024/January/1 January 2024.png'',
                ''archives/2024/January/15 January 2024.png'',
                ''archives/2024/February/3 February 2024.png'']
          \<and> map uploaded (attempts (final r2)) = [True, True, True]
          \<and> requests (after (exampleWorld (Parsed (JStr ''done'')) (\<lambda>n. Response 204 [])) r1) = 3
          \<and> calls (final r2) = 6
          \<and> report r2 = [Sent 0, Failed 3])
   \<and> (\<exists>r1 r2. sendAllArchives_rev1 (exampleWorld (Parsed (JStr ''done'')) (\<lambda>n. Response 204 []))
               ''archives'' (Some ''https://discord.test/hook'') 2000 = Inr r1
          \<and> sendAllArchives_rev1
               (after (exampleWorld (Parsed (JStr ''done'')) (\<lambda>n. Response 204 [])) r1)
               ''archives'' (Some ''https://discord.test/hook'') 2000 = Inr r2
          \<and> map uploaded (attempts (final r2)) = [True, True, True]
          \<and> calls (final r2) = 6
          \<and> report r2 = [SentNewFiles 3])"
proof -
  let ?w = "exampleWorld (Parsed (JStr ''done'')) (\<lambda>n. Response 204 [])"
  let ?url = "Some ''https://discord.test/hook''"
  have w0: "?w\<lparr>requests := 0\<rparr> = ?w" by (simp add: exampleWorld_def)
  from string_log_run [of 0] obtain r1 where
    r1: "sendAllArchives ?w ''archives'' ?url 2000 = Inr r1"
      "persisted (final r1) = Parsed (JStr ''done'')" "calls (final r1) = 3"
    unfolding w0 by simp
  have w2: "after ?w r1 = ?w\<lparr>requests := 3\<rparr>"
    using r1(2,3) by (simp add: after_def exampleWorld_def)
  from string_log_run [of 3] obtain r2 where
    r2: "sendAllArchives (after ?w r1) ''archives'' ?url 2000 = Inr r2"
      "map path (attempts (final r2)) =
               [''archives/2024/January/1 January 2024.png'',
                ''archives/2024/January/15 January 2024.png'',
                ''archives/2024/February/3 February 2024.png'']"
      "map uploaded (attempts (final r2)) = [True, True, True]"
      "calls (final r2) = 6" "report r2 = [Sent 0, Failed 3]"
    unfolding w2 by simp
  have q: "requests (after ?w r1) = 3" unfolding w2 by simp
  from r1(1) r2 q have 2: "\<exists>r1 r2. sendAllArchives ?w ''archives'' ?url 2000 = Inr r1
          \<and> sendAllArchives (after ?w r1) ''archives'' ?url 2000 = Inr r2
          \<and> map path (attempts (final r2)) =
               [''archives/2024/January/1 January 2024.png'',
                ''archives/2024/January/15 January 2024.png'',
                ''archives/2024/February/3 February 2024.png'']
          \<and> map uploaded (attempts (final r2)) = [True, True, True]
          \<and> requests (after ?w r1) = 3
          \<and> calls (final r2) = 6
          \<and> report r2 = [Sent 0, Failed 3]"
    by (intro exI [of _ r1] exI [of _ r2] conjI)
  from string_log_run_rev1 [of 0] obtain q1 where
    q1: "sendAllArchives_rev1 ?w ''archives'' ?url 2000 = Inr q1"
      "persisted (final q1) = Parsed (JStr ''done'')" "calls (final q1) = 3"
    unfolding w0 by simp
  have v2: "after ?w q1 = ?w\<lparr>requests := 3\<rparr>"
    using q1(2,3) by (simp add: after_def exampleWorld_def)
  from string_log_run_rev1 [of 3] obtain q2 where
    q2: "sendAllArchives_rev1 (after ?w q1) ''archives'' ?url 2000 = Inr q2"
      "map uploaded (attempts (final q2)) = [True, True, True]"
      "calls (final q2) = 6" "report q2 = [SentNewFiles 3]"
    unfolding v2 by simp
  from q1(1) q2 have 1: "\<exists>r1 r2. sendAllArchives_rev1 ?w ''archives'' ?url 2000 = Inr r1
          \<and> sendAllArchives_rev1 (after ?w r1) ''archives'' ?url 2000 = Inr r2
          \<and> map uploaded (attempts (final r2)) = [True, True, True]
          \<and> calls (final r2) = 6
          \<and> report r2 = [SentNewFiles 3]"
    by (intro exI [of _ q1] exI [of _ q2] conjI)
  from 2 1 show ?thesis by (rule conjI)
qed

text \<open>
  Claim C2, amended. Let the sent log be absent, unparsable or an array, let the webhook
  URL be set, let every file of the archive be readable, let the endpoint answer every
  request with a status from 200 to 299, and let every write of the sent log succeed.
  Then after a run of \<open>sendAllArchives\<close> a second run on the same archive finds no new file
  and attempts none; the second revision reports 0 sent and 0 failed and returns 0, the
  first reports 0 new files and returns 0; the sent log stays as the first run left it.
\<close>

theorem second_run_delivers_nothing:
  assumes "loadSentFiles (sentLog w) = JArr xs"
    and "url \<noteq> None" and "url \<noteq> Some []"
    and "\<forall>f \<in> set (getAllPngFiles dir (archives w)). readFileSync w f = None"
    and "\<forall>n. \<exists>status body. endpoint w n = Response status body \<and> response_ok status"
    and "\<forall>n. writeFileSync w n = Written"
  shows "(\<exists>r1 r2. sendAllArchives w dir url d = Inr r1
             \<and> sendAllArchives (after w r1) dir url d = Inr r2
             \<and> newFiles r2 = [] \<and> attempts (final r2) = []
             \<and> report r2 = [Sent 0, Failed 0] \<and> returned r2 = 0
             \<and> sentLog (after (after w r1) r2) = sentLog (after w r1))
       \<and> (\<exists>r1 r2. sendAllArchives_rev1 w dir url d = Inr r1
             \<and> sendAllArchives_rev1 (after w r1) dir url d = Inr r2
             \<and> newFiles r2 = [] \<and> attempts (final r2) = []
             \<and> report r2 = [SentNewFiles 0] \<and> returned r2 = 0
             \<and> sentLog (after (after w r1) r2) = sentLog (after w r1))"
proof
  let ?new = "filter (\<lambda>f. JStr f \<notin> set xs) (sortedFiles w dir)"
  note n = newFilesOf_array [OF assms(1), of dir]
  note files = newFilesOf_files [OF n]
  let ?send = "\<lambda>c f. sendToDiscord (existsSync dir (archives w)) (readFileSync w) (endpoint w c) f url"
  have ok: "\<forall>c. \<forall>f \<in> set ?new. \<exists>b. snd (?send c f) = Inr b"
  proof (intro allI ballI)
    fix c f assume f: "f \<in> set ?new"
    with files(1,3) assms(4) have e: "existsSync dir (archives w) f" "readFileSync w f = None"
      by auto
    have "sendToDiscord (existsSync dir (archives w)) (readFileSync w) (endpoint w c) f url
        = (True, Inr True)"
      using assms(2,3) e assms(5) [rule_format, of c] by (intro sendToDiscord_accepted)
    then show "\<exists>b. snd (?send c f) = Inr b" by (intro exI [of _ True]) simp
  qed
  let ?s = "deliverLoop (deliver w dir url d (length ?new)) 0 ?new (initial w)"
  let ?r1 = "\<lparr>newFiles = ?new, final = ?s,
            report = [Sent (successCount ?s), Failed (failCount ?s)],
            returned = successCount ?s\<rparr>"
  have r1: "sendAllArchives w dir url d = Inr ?r1" by (rule sendAllArchives_run [OF n])
  define ys where "ys = xs @ map JStr ?new"
  have l: "loadSentFiles (sentLog (after w ?r1)) = JArr ys"
    using accepted_run_log [OF step_spec_deliver assms(1) ok assms(6)] by (simp add: ys_def)
  have nil: "filter (\<lambda>f. JStr f \<notin> set ys) (sortedFiles (after w ?r1) dir) = []"
    unfolding ys_def sortedFiles_after by (rule second_run_nothing_new)
  note r2 = nothing_new_run(1) [OF l nil, of url d]
  show "\<exists>r1 r2. sendAllArchives w dir url d = Inr r1
             \<and> sendAllArchives (after w r1) dir url d = Inr r2
             \<and> newFiles r2 = [] \<and> attempts (final r2) = []
             \<and> report r2 = [Sent 0, Failed 0] \<and> returned r2 = 0
             \<and> sentLog (after (after w r1) r2) = sentLog (after w r1)"
    apply (rule exI [of _ ?r1])
    apply (rule exI [of _ "\<lparr>newFiles = [], final = initial (after w ?r1),
              report = [Sent 0, Failed 0], returned = 0\<rparr>"])
    apply (intro conjI)
          apply (rule r1)
         apply (rule r2)
        apply simp_all
    done
next
  let ?new = "filter (\<lambda>f. JStr f \<notin> set xs) (sortedFiles w dir)"
  note n = newFilesOf_array [OF assms(1), of dir]
  note files = newFilesOf_files [OF n]
  let ?send = "\<lambda>c f. sendToDiscord_rev1 (existsSync dir (archives w)) (endpoint w c) f url"
  have ok: "\<forall>c. \<forall>f \<in> set ?new. \<exists>b. snd (?send c f) = Inr b"
  proof (intro allI ballI)
    fix c f assume f: "f \<in> set ?new"
    with files(3) have e: "existsSync dir (archives w) f" by auto
    have "sendToDiscord_rev1 (existsSync dir (archives w)) (endpoint w c) f url
        = (True, Inr True)"
      using assms(2,3) e assms(5) [rule_format, of c] by (intro sendToDiscord_rev1_accepted)
    then show "\<exists>b. snd (?send c f) = Inr b" by (intro exI [of _ True]) simp
  qed
  let ?s = "deliverLoop (deliver_rev1 w dir url d ?new) 0 ?new (initial w)"
  let ?r1 = "\<lparr>newFiles = ?new, final = ?s, report = [SentNewFiles (length ?new)],
            returned = length ?new\<rparr>"
  have r1: "sendAllArchives_rev1 w dir url d = Inr ?r1" by (rule sendAllArchives_rev1_run [OF n])
  define ys where "ys = xs @ map JStr ?new"
  have l: "loadSentFiles (sentLog (after w ?r1)) = JArr ys"
    using accepted_run_log [OF step_spec_deliver_rev1 assms(1) ok assms(6)] by (simp add: ys_def)
  have nil: "filter (\<lambda>f. JStr f \<notin> set ys) (sortedFiles (after w ?r1) dir) = []"
    unfolding ys_def sortedFiles_after by (rule second_run_nothing_new)
  note r2 = nothing_new_run(2) [OF l nil, of url d]
  show "\<exists>r1 r2. sendAllArchives_rev1 w dir url d = Inr r1
             \<and> sendAllArchives_rev1 (after w r1) dir url d = Inr r2
             \<and> newFiles r2 = [] \<and> attempts (final r2) = []
             \<and> report r2 = [SentNewFiles 0] \<and> returned r2 = 0
             \<and> sentLog (after (after w r1) r2) = sentLog (after w r1)"
    apply (rule exI [of _ ?r1])
    apply (rule exI [of _ "\<lparr>newFiles = [], final = initial (after w ?r1),
              report = [SentNewFiles 0], returned = 0\<rparr>"])
    apply (intro conjI)
          apply (rule r1)
         apply (rule r2)
        apply simp_all
    done
qed

theorem second_run_delivers_nothing_witness:
  "loadSentFiles (sentLog (exampleWorld Absent (\<lambda>n. Response 204 []))) = JArr []
   \<and> (\<exists>r1 r2. sendAllArchives (exampleWorld Absent (\<lambda>n. Response 204 [])) ''archives''
               (Some ''https://discord.test/hook'') 2000 = Inr r1
          \<and> sendAllArchives (after (exampleWorld Absent (\<lambda>n. Response 204 [])) r1) ''archives''
               (Some ''https://discord.test/hook'') 2000 = Inr r2
          \<and> attempts (final r2) = [] \<and> report r2 = [Sent 0, Failed 0] \<and> returned r2 = 0)
   \<and> (\<exists>r1 r2. sendAllArchives_rev1 (exampleWorld Absent (\<lambda>n. Response 204 [])) ''archives''
               (Some ''https://discord.test/hook'') 2000 = Inr r1
          \<and> sendAllArchives_rev1 (after (exampleWorld Absent (\<lambda>n. Response 204 [])) r1) ''archives''
               (Some ''https://discord.test/hook'') 2000 = Inr r2
          \<and> attempts (final r2) = [] \<and> report r2 = [SentNewFiles 0] \<and> returned r2 = 0)"
proof -
  let ?w = "exampleWorld Absent (\<lambda>n. Response 204 [])"
  let ?url = "Some ''https://discord.test/hook''"
  have h1: "loadSentFiles (sentLog ?w) = JArr []" by (simp add: loadSentFiles_def)
  have h2: "?url \<noteq> None" by simp
  have h3: "?url \<noteq> Some []" by simp
  have h4: "\<forall>f \<in> set (getAllPngFiles ''archives'' (archives ?w)). readFileSync ?w f = None"
    by simp
  have h5: "\<forall>n. \<exists>status body. endpoint ?w n = Response status body \<and> response_ok status"
    by (simp add: response_ok_def)
  have h6: "\<forall>n. writeFileSync ?w n = Written" by simp
  note t = second_run_delivers_nothing [OF h1 h2 h3 h4 h5 h6, of 2000]
  from t [THEN conjunct1] obtain r1 r2 where
    "sendAllArchives ?w ''archives'' ?url 2000 = Inr r1"
    "sendAllArchives (after ?w r1) ''archives'' ?url 2000 = Inr r2"
    "attempts (final r2) = []" "report r2 = [Sent 0, Failed 0]" "returned r2 = 0"
    by (elim exE conjE)
  then have a: "\<exists>r1 r2. sendAllArchives ?w ''archives'' ?url 2000 = Inr r1
          \<and> sendAllArchives (after ?w r1) ''archives'' ?url 2000 = Inr r2
          \<and> attempts (final r2) = [] \<and> report r2 = [Sent 0, Failed 0] \<and> returned r2 = 0"
    by (intro exI [of _ r1] exI [of _ r2] conjI)
  from t [THEN conjunct2] obtain q1 q2 where
    "sendAllArchives_rev1 ?w ''archives'' ?url 2000 = Inr q1"
    "sendAllArchives_rev1 (after ?w q1) ''archives'' ?url 2000 = Inr q2"
    "attempts (final q2) = []" "report q2 = [SentNewFiles 0]" "returned q2 = 0"
    by (elim exE conjE)
  then have b: "\<exists>r1 r2. sendAllArchives_rev1 ?w ''archives'' ?url 2000 = Inr r1
          \<and> sendAllArchives_rev1 (after ?w r1) ''archives'' ?url 2000 = Inr r2
          \<and> attempts (final r2) = [] \<and> report r2 = [SentNewFiles 0] \<and> returned r2 = 0"
    by (intro exI [of _ q1] exI [of _ q2] conjI)
  from h1 a b show ?thesis by (intro conjI)
qed

subsection \<open>The order of deliveries\<close>

text \<open>
  Claim C3. Both revisions sort the files with the comparator \<open>dateA - dateB\<close>, under the
  comment \<open>Sort files by date (oldest first)\<close>, and nothing guards against a date that is
  NaN. A file name whose year is beyond the range of Date objects gives NaN; the
  comparator then returns NaN against every other file, which the sort takes for 0, and
  the files around it are not compared with each other. Listed as \<open>1 January 2025.png\<close>,
  \<open>2 January 300000.png\<close>, \<open>3 January 2024.png\<close>, the files stay in this order: in both
  revisions the file of 1 January 2025 is attempted before the file of 3 January 2024,
  although both names give a date and the second date is the older one.
\<close>

theorem newer_file_sent_before_older:
  "(\<exists>r. sendAllArchives farYearWorld ''archives'' (Some ''https://discord.test/hook'') 2000 = Inr r
      \<and> map path (attempts (final r)) =
          [''archives/1 January 2025.png'', ''archives/2 January 300000.png'',
           ''archives/3 January 2024.png''])
   \<and> (\<exists>r. sendAllArchives_rev1 farYearWorld ''archives'' (Some ''https://discord.test/hook'') 2000
          = Inr r
      \<and> map path (attempts (final r)) =
          [''archives/1 January 2025.png'', ''archives/2 January 300000.png'',
           ''archives/3 January 2024.png''])
   \<and> getAllPngFiles ''archives'' (archives farYearWorld) =
          [''archives/1 January 2025.png'', ''archives/2 January 300000.png'',
           ''archives/3 January 2024.png'']
   \<and> extractDateFromPath (localTZA farYearWorld) ''archives/1 January 2025.png'' = Num 1735689600000
   \<and> extractDateFromPath (localTZA farYearWorld) ''archives/2 January 300000.png'' = NaN
   \<and> extractDateFromPath (localTZA farYearWorld) ''archives/3 January 2024.png'' = Num 1704240000000
   \<and> (1704240000000 :: int) < 1735689600000"
proof -
  let ?url = "Some ''https://discord.test/hook''"
  let ?fs = "[''archives/1 January 2025.png'', ''archives/2 January 300000.png'',
           ''archives/3 January 2024.png'']"
  have p: "map path (attempts (final (projr (sendAllArchives farYearWorld ''archives'' ?url 2000))))
      = ?fs"
    by code_simp
  have i: "isl (sendAllArchives farYearWorld ''archives'' ?url 2000) = False"
    by code_simp
  have p1: "map path (attempts (final (projr
      (sendAllArchives_rev1 farYearWorld ''archives'' ?url 2000)))) = ?fs"
    by code_simp
  have i1: "isl (sendAllArchives_rev1 farYearWorld ''archives'' ?url 2000) = False"
    by code_simp
  have g: "getAllPngFiles ''archives'' (archives farYearWorld) = ?fs"
    by code_simp
  have d: "extractDateFromPath (localTZA farYearWorld) ''archives/1 January 2025.png'' = Num 1735689600000"
    "extractDateFromPath (localTZA farYearWorld) ''archives/2 January 300000.png'' = NaN"
    "extractDateFromPath (localTZA farYearWorld) ''archives/3 January 2024.png'' = Num 1704240000000"
    by code_simp+
  from i have "sendAllArchives farYearWorld ''archives'' ?url 2000
      = Inr (projr (sendAllArchives farYearWorld ''archives'' ?url 2000))"
    by (metis sum.collapse(2))
  with p have a: "\<exists>r. sendAllArchives farYearWorld ''archives'' ?url 2000 = Inr r
      \<and> map path (attempts (final r)) = ?fs"
    by (intro exI [of _ "projr (sendAllArchives farYearWorld ''archives'' ?url 2000)"] conjI)
  from i1 have "sendAllArchives_rev1 farYearWorld ''archives'' ?url 2000
      = Inr (projr (sendAllArchives_rev1 farYearWorld ''archives'' ?url 2000))"
    by (metis sum.collapse(2))
  with p1 have b: "\<exists>r. sendAllArchives_rev1 farYearWorld ''archives'' ?url 2000 = Inr r
      \<and> map path (attempts (final r)) = ?fs"
    by (intro exI [of _ "projr (sendAllArchives_rev1 farYearWorld ''archives'' ?url 2000)"] conjI)
  have c: "(1704240000000 :: int) < 1735689600000" by simp
  from a b g d c show ?thesis by (intro conjI)
qed

subsection \<open>A failed delivery\<close>

text \<open>
  Claim C4. Let \<open>new\<close> be the work queue of a run, in either revision. The run returns, and
  its trace has one entry for every file of the queue, in order, also for the files after
  a failure. The entry at position \<open>K\<close> is that of the call of \<open>sendToDiscord\<close> on file \<open>K\<close>
  in the state that the iterations before it have left: it says whether \<open>fetch\<close> was
  called, and the count of requests goes up by one when it was. When that call throws, the
  \<open>catch\<close> block receives its error, and the file is recorded neither in \<open>sentFiles\<close> nor in
  the sent log on disk at the end of the run.
\<close>

theorem failure_is_skipped:
  assumes "wellFormedListing (archives w)"
    and "newFilesOf w dir = Inr new"
    and "(run, send, body) \<in>
           {(sendAllArchives w dir url d,
             \<lambda>c f. sendToDiscord (existsSync dir (archives w)) (readFileSync w) (endpoint w c) f url,
             deliver w dir url d (length new)),
            (sendAllArchives_rev1 w dir url d,
             \<lambda>c f. sendToDiscord_rev1 (existsSync dir (archives w)) (endpoint w c) f url,
             deliver_rev1 w dir url d new)}"
  shows "\<exists>r. run = Inr r \<and> newFiles r = new \<and> map path (attempts (final r)) = new
       \<and> (\<forall>K < length new.
            fetched (attempts (final r) ! K)
              = fst (send (calls (interrupted body new (initial w) K)) (new ! K))
          \<and> calls (interrupted body new (initial w) (Suc K))
              = calls (interrupted body new (initial w) K)
                + (if fst (send (calls (interrupted body new (initial w) K)) (new ! K)) then 1 else 0)
          \<and> (\<forall>e. snd (send (calls (interrupted body new (initial w) K)) (new ! K)) = Inl e \<longrightarrow>
                caught (attempts (final r) ! K) = Some (message e)
              \<and> \<not> uploaded (attempts (final r) ! K)
              \<and> \<not> records (sentFiles (final r)) (new ! K)
              \<and> \<not> records (loadSentFiles (persisted (final r))) (new ! K)))"
proof -
  from assms(3) consider
    (rev2) "run = sendAllArchives w dir url d"
      "send = (\<lambda>c f. sendToDiscord (existsSync dir (archives w)) (readFileSync w) (endpoint w c) f url)"
      "body = deliver w dir url d (length new)"
    | (rev1) "run = sendAllArchives_rev1 w dir url d"
      "send = (\<lambda>c f. sendToDiscord_rev1 (existsSync dir (archives w)) (endpoint w c) f url)"
      "body = deliver_rev1 w dir url d new"
    by auto
  then show ?thesis
  proof cases
    case rev2
    let ?fin = "deliverLoop body 0 new (initial w)"
    let ?r = "\<lparr>newFiles = new, final = ?fin,
            report = [Sent (successCount ?fin), Failed (failCount ?fin)],
            returned = successCount ?fin\<rparr>"
    have r: "run = Inr ?r" unfolding rev2 by (rule sendAllArchives_run [OF assms(2)])
    have step: "step_spec send (writeFileSync w) body" unfolding rev2 by (rule step_spec_deliver)
    have f: "final ?r = deliverLoop body 0 new (initial w)" by simp
    note l = loop_by_iteration [OF step assms(1,2) f]
    have n: "newFiles ?r = new" by simp
    show ?thesis
      apply (rule exI [of _ ?r])
      apply (intro conjI)
         apply (rule r)
        apply (rule n)
       apply (rule l [THEN conjunct1])
      apply (rule l [THEN conjunct2])
      done
  next
    case rev1
    let ?fin = "deliverLoop body 0 new (initial w)"
    let ?r = "\<lparr>newFiles = new, final = ?fin, report = [SentNewFiles (length new)],
            returned = length new\<rparr>"
    have r: "run = Inr ?r" unfolding rev1 by (rule sendAllArchives_rev1_run [OF assms(2)])
    have step: "step_spec send (writeFileSync w) body"
      unfolding rev1 by (rule step_spec_deliver_rev1)
    have f: "final ?r = deliverLoop body 0 new (initial w)" by simp
    note l = loop_by_iteration [OF step assms(1,2) f]
    have n: "newFiles ?r = new" by simp
    show ?thesis
      apply (rule exI [of _ ?r])
      apply (intro conjI)
         apply (rule r)
        apply (rule n)
       apply (rule l [THEN conjunct1])
      apply (rule l [THEN conjunct2])
      done
  qed
qed

theorem failure_is_skipped_witness:
  "wellFormedListing (archives (exampleWorld Absent exampleEndpoint))
   \<and> newFilesOf (exampleWorld Absent exampleEndpoint) ''archives''
       = Inr [''archives/2024/January/1 January 2024.png'',
              ''archives/2024/January/15 January 2024.png'',
              ''archives/2024/February/3 February 2024.png'']
   \<and> sendToDiscord (existsSync ''archives'' (archives (exampleWorld Absent exampleEndpoint)))
         (readFileSync (exampleWorld Absent exampleEndpoint))
         (endpoint (exampleWorld Absent exampleEndpoint) 1)
         ''archives/2024/January/15 January 2024.png'' (Some ''https://discord.test/hook'')
       = (True, Inl (Error ''Discord API error (429): You are being rate limited.''))
   \<and> (\<exists>r. sendAllArchives (exampleWorld Absent exampleEndpoint) ''archives''
              (Some ''https://discord.test/hook'') 2000 = Inr r
          \<and> map path (attempts (final r)) =
               [''archives/2024/January/1 January 2024.png'',
                ''archives/2024/January/15 January 2024.png'',
                ''archives/2024/February/3 February 2024.png'']
          \<and> fetched (attempts (final r) ! 1)
          \<and> caught (attempts (final r) ! 1)
              = Some ''Discord API error (429): You are being rate limited.''
          \<and> \<not> uploaded (attempts (final r) ! 1)
          \<and> \<not> records (sentFiles (final r)) ''archives/2024/January/15 January 2024.png''
          \<and> \<not> records (loadSentFiles (persisted (final r)))
                 ''archives/2024/January/15 January 2024.png'')
   \<and> (\<exists>r. sendAllArchives_rev1 (exampleWorld Absent exampleEndpoint) ''archives''
              (Some ''https://discord.test/hook'') 2000 = Inr r
          \<and> map path (attempts (final r)) =
               [''archives/2024/January/1 January 2024.png'',
                ''archives/2024/January/15 January 2024.png'',
                ''archives/2024/February/3 February 2024.png'']
          \<and> fetched (attempts (final r) ! 1)
          \<and> caught (attempts (final r) ! 1)
              = Some ''Discord API error (429): You are being rate limited.''
          \<and> \<not> uploaded (attempts (final r) ! 1)
          \<and> \<not> records (sentFiles (final r)) ''archives/2024/January/15 January 2024.png''
          \<and> \<not> records (loadSentFiles (persisted (final r)))
                 ''archives/2024/January/15 January 2024.png'')"
proof -
  let ?w = "exampleWorld Absent exampleEndpoint"
  let ?url = "Some ''https://discord.test/hook''"
  let ?f1 = "''archives/2024/January/1 January 2024.png''"
  let ?f2 = "''archives/2024/January/15 January 2024.png''"
  let ?f3 = "''archives/2024/February/3 February 2024.png''"
  let ?new = "[?f1, ?f2, ?f3]"
  let ?send = "\<lambda>c f. sendToDiscord (existsSync ''archives'' (archives ?w)) (readFileSync ?w)
      (endpoint ?w c) f ?url"
  let ?body = "deliver ?w ''archives'' ?url 2000 (length ?new)"
  let ?m = "''Discord API error (429): You are being rate limited.''"
  have h1: "wellFormedListing (archives ?w)" by (simp add: example_wellFormed)
  have "loadSentFiles (sentLog ?w) = JArr []" by (simp add: loadSentFiles_def)
  from newFilesOf_array [OF this, of "''archives''"]
  have h2: "newFilesOf ?w ''archives'' = Inr ?new" by (simp add: example_sorted)
  have h3: "(sendAllArchives ?w ''archives'' ?url 2000, ?send, ?body) \<in>
           {(sendAllArchives ?w ''archives'' ?url 2000,
             \<lambda>c f. sendToDiscord (existsSync ''archives'' (archives ?w)) (readFileSync ?w)
                (endpoint ?w c) f ?url,
             deliver ?w ''archives'' ?url 2000 (length ?new)),
            (sendAllArchives_rev1 ?w ''archives'' ?url 2000,
             \<lambda>c f. sendToDiscord_rev1 (existsSync ''archives'' (archives ?w)) (endpoint ?w c) f ?url,
             deliver_rev1 ?w ''archives'' ?url 2000 ?new)}"
    by (rule insertI1)
  have s0: "?send 0 ?f1 = (True, Inr True)" by code_simp
  have e1: "?send 1 ?f2 = (True, Inl (Error ?m))" by code_simp
  from failure_is_skipped [where w = ?w and dir = "''archives''" and url = ?url and d = 2000
      and new = ?new and run = "sendAllArchives ?w ''archives'' ?url 2000" and send = ?send
      and body = ?body, OF h1 h2 h3]
  obtain r where r: "sendAllArchives ?w ''archives'' ?url 2000 = Inr r"
      "map path (attempts (final r)) = ?new"
    and all: "\<forall>K < length ?new.
            fetched (attempts (final r) ! K)
              = fst (?send (calls (interrupted ?body ?new (initial ?w) K)) (?new ! K))
          \<and> calls (interrupted ?body ?new (initial ?w) (Suc K))
              = calls (interrupted ?body ?new (initial ?w) K)
                + (if fst (?send (calls (interrupted ?body ?new (initial ?w) K)) (?new ! K)) then 1 else 0)
          \<and> (\<forall>e. snd (?send (calls (interrupted ?body ?new (initial ?w) K)) (?new ! K)) = Inl e \<longrightarrow>
                caught (attempts (final r) ! K) = Some (message e)
              \<and> \<not> uploaded (attempts (final r) ! K)
              \<and> \<not> records (sentFiles (final r)) (?new ! K)
              \<and> \<not> records (loadSentFiles (persisted (final r))) (?new ! K))"
    by (elim exE conjE)
  have l: "0 < length ?new" "Suc 0 < length ?new" by simp_all
  have i0: "calls (interrupted ?body ?new (initial ?w) 0) = 0" by simp
  from all [THEN spec, of 0, THEN mp, OF l(1), THEN conjunct2, THEN conjunct1]
  have c1: "calls (interrupted ?body ?new (initial ?w) (Suc 0)) = Suc 0"
    unfolding i0 nth_Cons_0 s0 by simp
  note k1 = all [THEN spec, of "Suc 0", THEN mp, OF l(2), unfolded c1 nth_Cons_Suc nth_Cons_0]
  have e1': "?send (Suc 0) ?f2 = (True, Inl (Error ?m))" using e1 by simp
  from k1 [THEN conjunct1] have f: "fetched (attempts (final r) ! 1)"
    unfolding e1' by simp
  from k1 [THEN conjunct2, THEN conjunct2, THEN spec, of "Error ?m"]
  have g: "caught (attempts (final r) ! 1) = Some ?m" "\<not> uploaded (attempts (final r) ! 1)"
    "\<not> records (sentFiles (final r)) ?f2"
    "\<not> records (loadSentFiles (persisted (final r))) ?f2"
    unfolding e1' by simp_all
  from r f g have x: "\<exists>r. sendAllArchives ?w ''archives'' ?url 2000 = Inr r
          \<and> map path (attempts (final r)) = ?new
          \<and> fetched (attempts (final r) ! 1)
          \<and> caught (attempts (final r) ! 1) = Some ?m
          \<and> \<not> uploaded (attempts (final r) ! 1)
          \<and> \<not> records (sentFiles (final r)) ?f2
          \<and> \<not> records (loadSentFiles (persisted (final r))) ?f2"
    by (intro exI [of _ r] conjI)
  have e1'': "sendToDiscord (existsSync ''archives'' (archives ?w)) (readFileSync ?w)
         (endpoint ?w 1) ?f2 ?url = (True, Inl (Error ?m))"
    using e1 by simp
  txt \<open>The same for the first revision.\<close>
  let ?send1 = "\<lambda>c f. sendToDiscord_rev1 (existsSync ''archives'' (archives ?w)) (endpoint ?w c) f ?url"
  let ?body1 = "deliver_rev1 ?w ''archives'' ?url 2000 ?new"
  have h3': "(sendAllArchives_rev1 ?w ''archives'' ?url 2000, ?send1, ?body1) \<in>
           {(sendAllArchives ?w ''archives'' ?url 2000,
             \<lambda>c f. sendToDiscord (existsSync ''archives'' (archives ?w)) (readFileSync ?w)
                (endpoint ?w c) f ?url,
             deliver ?w ''archives'' ?url 2000 (length ?new)),
            (sendAllArchives_rev1 ?w ''archives'' ?url 2000,
             \<lambda>c f. sendToDiscord_rev1 (existsSync ''archives'' (archives ?w)) (endpoint ?w c) f ?url,
             deliver_rev1 ?w ''archives'' ?url 2000 ?new)}"
    by (rule insertI2, rule insertI1)
  have t0: "?send1 0 ?f1 = (True, Inr True)" by code_simp
  have u1: "?send1 (Suc 0) ?f2 = (True, Inl (Error ?m))" by code_simp
  from failure_is_skipped [where w = ?w and dir = "''archives''" and url = ?url and d = 2000
      and new = ?new and run = "sendAllArchives_rev1 ?w ''archives'' ?url 2000" and send = ?send1
      and body = ?body1, OF h1 h2 h3']
  obtain q where q: "sendAllArchives_rev1 ?w ''archives'' ?url 2000 = Inr q"
      "map path (attempts (final q)) = ?new"
    and all1: "\<forall>K < length ?new.
            fetched (attempts (final q) ! K)
              = fst (?send1 (calls (interrupted ?body1 ?new (initial ?w) K)) (?new ! K))
          \<and> calls (interrupted ?body1 ?new (initial ?w) (Suc K))
              = calls (interrupted ?body1 ?new (initial ?w) K)
                + (if fst (?send1 (calls (interrupted ?body1 ?new (initial ?w) K)) (?new ! K)) then 1 else 0)
          \<and> (\<forall>e. snd (?send1 (calls (interrupted ?body1 ?new (initial ?w) K)) (?new ! K)) = Inl e \<longrightarrow>
                caught (attempts (final q) ! K) = Some (message e)
              \<and> \<not> uploaded (attempts (final q) ! K)
              \<and> \<not> records (sentFiles (final q)) (?new ! K)
              \<and> \<not> records (loadSentFiles (persisted (final q))) (?new ! K))"
    by (elim exE conjE)
  have j0: "calls (interrupted ?body1 ?new (initial ?w) 0) = 0" by simp
  from all1 [THEN spec, of 0, THEN mp, OF l(1), THEN conjunct2, THEN conjunct1]
  have d1: "calls (interrupted ?body1 ?new (initial ?w) (Suc 0)) = Suc 0"
    unfolding j0 nth_Cons_0 t0 by simp
  note m1 = all1 [THEN spec, of "Suc 0", THEN mp, OF l(2), unfolded d1 nth_Cons_Suc nth_Cons_0]
  from m1 [THEN conjunct1] have f1: "fetched (attempts (final q) ! 1)"
    unfolding u1 by simp
  from m1 [THEN conjunct2, THEN conjunct2, THEN spec, of "Error ?m"]
  have g1: "caught (attempts (final q) ! 1) = Some ?m" "\<not> uploaded (attempts (final q) ! 1)"
    "\<not> records (sentFiles (final q)) ?f2"
    "\<not> records (loadSentFiles (persisted (final q))) ?f2"
    unfolding u1 by simp_all
  from q f1 g1 have y: "\<exists>r. sendAllArchives_rev1 ?w ''archives'' ?url 2000 = Inr r
          \<and> map path (attempts (final r)) = ?new
          \<and> fetched (attempts (final r) ! 1)
          \<and> caught (attempts (final r) ! 1) = Some ?m
          \<and> \<not> uploaded (attempts (final r) ! 1)
          \<and> \<not> records (sentFiles (final r)) ?f2
          \<and> \<not> records (loadSentFiles (persisted (final r))) ?f2"
    by (intro exI [of _ q] conjI)
  from h1 h2 e1'' x y show ?thesis by (intro conjI)
qed

subsection \<open>The date of a file name\<close>

text \<open>
  Claim C5, as stated, fails in two places. The sentinel 0 does not sort before the date
  of every valid file name: \<open>1 January 1969.png\<close> gives a negative time value. And the date
  returned need not have the parsed day, month and year: \<open>31 February 2024.png\<close> gives the
  time value of 2 March 2024. (The local time zone is UTC here.)
\<close>

theorem sentinel_and_fields_counterexample:
  "match_name (basename ''archives/1 January 1969.png'') = Some (''1'', ''January'', ''1969'')
   \<and> indexOf months ''January'' = Some 0
   \<and> extractDateFromPath (\<lambda>t. 0) ''archives/1 January 1969.png'' = Num (- 31536000000)
   \<and> \<not> ((0 :: int) < - 31536000000)
   \<and> match_name (basename ''archives/31 February 2024.png'') = Some (''31'', ''February'', ''2024'')
   \<and> indexOf months ''February'' = Some 1
   \<and> extractDateFromPath (\<lambda>t. 0) ''archives/31 February 2024.png'' = Num 1709337600000
   \<and> extractDateFromPath (\<lambda>t. 0) ''archives/2 March 2024.png'' = Num 1709337600000
   \<and> date_fields 1709337600000 2024 2 2"
  by (intro conjI; code_simp)

text \<open>
  Claim C5, amended. \<open>extractDateFromPath\<close> is a total function: it returns a number for
  every path and throws nothing. When the file name does not match the pattern, or
  matches with a month name that is not one of the twelve, it returns the sentinel 0.
  When the file name matches with month index \<open>m\<close>, year \<open>y\<close> of at least 100 and day
  \<open>d\<close> from 1 to the number of days of that month, and the date lies in the range of time
  values, it returns the time value of local midnight of the day whose year, month and
  date are \<open>y\<close>, \<open>m\<close> and \<open>d\<close>; and where the date is 2 January 1970 or later and the
  offset of the time zone is below one day, the sentinel is strictly less than that value.
\<close>

theorem extractDateFromPath_contract:
  "(match_name (basename p) = None \<longrightarrow> extractDateFromPath tza p = Num 0)
   \<and> (\<forall>g1 g2 g3. match_name (basename p) = Some (g1, g2, g3) \<and> indexOf months g2 = None \<longrightarrow>
         extractDateFromPath tza p = Num 0)
   \<and> (\<forall>g1 g2 g3 m t. match_name (basename p) = Some (g1, g2, g3) \<and> indexOf months g2 = Some m
         \<and> 100 \<le> parseInt g3 \<and> 1 \<le> parseInt g1 \<and> parseInt g1 \<le> DaysInMonth (parseInt g3) m
         \<and> t = MakeDay (parseInt g3) m (parseInt g1) * msPerDay
         \<and> \<bar>t - tza t\<bar> \<le> 8640000000000000 \<longrightarrow>
         m < 12 \<and> extractDateFromPath tza p = Num (t - tza t)
         \<and> date_fields t (parseInt g3) m (parseInt g1) \<and> t mod msPerDay = 0
         \<and> (\<bar>tza t\<bar> < msPerDay
              \<and> (1970 < parseInt g3 \<or> parseInt g3 = 1970 \<and> (0 < m \<or> 1 < parseInt g1)) \<longrightarrow>
             0 < t - tza t))"
proof (intro conjI allI impI)
  show "extractDateFromPath tza p = Num 0" if "match_name (basename p) = None"
    using that by (simp add: extractDateFromPath_def)
  show "extractDateFromPath tza p = Num 0"
    if "match_name (basename p) = Some (g1, g2, g3) \<and> indexOf months g2 = None" for g1 g2 g3
    using that by (simp add: extractDateFromPath_def)
  fix g1 g2 g3 m t
  assume h: "match_name (basename p) = Some (g1, g2, g3) \<and> indexOf months g2 = Some m
         \<and> 100 \<le> parseInt g3 \<and> 1 \<le> parseInt g1 \<and> parseInt g1 \<le> DaysInMonth (parseInt g3) m
         \<and> t = MakeDay (parseInt g3) m (parseInt g1) * msPerDay
         \<and> \<bar>t - tza t\<bar> \<le> 8640000000000000"
  then have m: "m < 12" by (auto intro: month_index)
  then show "m < 12" .
  from h have teq: "MakeDay (parseInt g3) m (parseInt g1) * msPerDay = t"
    and rng: "\<not> 8640000000000000 < \<bar>t - tza t\<bar>" and y: "\<not> parseInt g3 \<le> 99"
    by auto
  have "new_Date_getTime tza (parseInt g3) m (parseInt g1) = Num (t - tza t)"
    by (simp add: new_Date_getTime_def TimeClip_def Let_def y teq rng)
  with h show "extractDateFromPath tza p = Num (t - tza t)"
    by (simp add: extractDateFromPath_def)
  show "date_fields t (parseInt g3) m (parseInt g1)"
    using h m by (simp add: date_fields_MakeDay)
  show "t mod msPerDay = 0" unfolding teq [symmetric] by simp
  show "0 < t - tza t"
    if a: "\<bar>tza t\<bar> < msPerDay
      \<and> (1970 < parseInt g3 \<or> parseInt g3 = 1970 \<and> (0 < m \<or> 1 < parseInt g1))"
  proof -
    have "1 \<le> MakeDay (parseInt g3) m (parseInt g1)"
      using m h a by (intro MakeDay_after_epoch) simp_all
    then have "1 * msPerDay \<le> MakeDay (parseInt g3) m (parseInt g1) * msPerDay"
      by (intro mult_right_mono) (simp_all add: msPerDay_def)
    then have "msPerDay \<le> t" unfolding teq by simp
    with a show ?thesis by linarith
  qed
qed

theorem extractDateFromPath_contract_witness:
  "match_name (basename ''archives/2025/December/9 December 2025.png'') = Some (''9'', ''December'', ''2025'')
   \<and> indexOf months ''December'' = Some 11
   \<and> extractDateFromPath (\<lambda>t. 0) ''archives/2025/December/9 December 2025.png'' = Num 1765238400000
   \<and> date_fields 1765238400000 2025 11 9
   \<and> (0 :: int) < 1765238400000
   \<and> match_name (basename ''archives/notes.png'') = None
   \<and> extractDateFromPath (\<lambda>t. 0) ''archives/notes.png'' = Num 0
   \<and> match_name (basename ''archives/1 Jan 2024.png'') = Some (''1'', ''Jan'', ''2024'')
   \<and> indexOf months ''Jan'' = None
   \<and> extractDateFromPath (\<lambda>t. 0) ''archives/1 Jan 2024.png'' = Num 0"
proof -
  let ?p = "''archives/2025/December/9 December 2025.png''"
  have h1: "match_name (basename ?p) = Some (''9'', ''December'', ''2025'')" by code_simp
  have h2: "indexOf months ''December'' = Some 11" by code_simp
  have v: "parseInt ''2025'' = 2025" "parseInt ''9'' = 9" by code_simp+
  have h3: "100 \<le> parseInt ''2025''" "1 \<le> parseInt ''9''" unfolding v by simp_all
  have h4: "parseInt ''9'' \<le> DaysInMonth (parseInt ''2025'') 11" unfolding v by code_simp
  have h5: "(1765238400000 :: int) = MakeDay (parseInt ''2025'') 11 (parseInt ''9'') * msPerDay"
    unfolding v by code_simp
  have h6: "\<bar>(1765238400000 :: int) - (\<lambda>t. 0) 1765238400000\<bar> \<le> 8640000000000000" by simp
  have h7: "\<bar>(\<lambda>t. 0 :: int) (1765238400000 :: int)\<bar> < msPerDay
      \<and> (1970 < parseInt ''2025'' \<or> parseInt ''2025'' = 1970 \<and> (0 < (11 :: nat) \<or> 1 < parseInt ''9''))"
    unfolding v by (simp add: msPerDay_def)
  note t = extractDateFromPath_contract [of ?p "\<lambda>t. 0", THEN conjunct2, THEN conjunct2, rule_format,
      of "''9''" "''December''" "''2025''" 11 1765238400000]
  have c: "11 < (12 :: nat) \<and> extractDateFromPath (\<lambda>t. 0) ?p = Num (1765238400000 - (\<lambda>t. 0) 1765238400000)
         \<and> date_fields 1765238400000 (parseInt ''2025'') 11 (parseInt ''9'') \<and> 1765238400000 mod msPerDay = 0
         \<and> (\<bar>(\<lambda>t. 0 :: int) (1765238400000 :: int)\<bar> < msPerDay
              \<and> (1970 < parseInt ''2025'' \<or> parseInt ''2025'' = 1970 \<and> (0 < (11 :: nat) \<or> 1 < parseInt ''9'')) \<longrightarrow>
             0 < 1765238400000 - (\<lambda>t. 0 :: int) (1765238400000 :: int))"
    by (rule t) (intro conjI h1 h2 h3 h4 h5 h6)
  then have e: "extractDateFromPath (\<lambda>t. 0) ?p = Num 1765238400000"
    and f: "date_fields 1765238400000 2025 11 9"
    unfolding v by simp_all
  from c h7 have pos: "(0 :: int) < 1765238400000" by simp
  have n1: "match_name (basename ''archives/notes.png'') = None" by code_simp
  from extractDateFromPath_contract [of "''archives/notes.png''" "\<lambda>t. 0", THEN conjunct1] n1
  have n2: "extractDateFromPath (\<lambda>t. 0) ''archives/notes.png'' = Num 0" by simp
  have u1: "match_name (basename ''archives/1 Jan 2024.png'') = Some (''1'', ''Jan'', ''2024'')"
    by code_simp
  have u2: "indexOf months ''Jan'' = None" by code_simp
  from u1 u2 have u: "match_name (basename ''archives/1 Jan 2024.png'') = Some (''1'', ''Jan'', ''2024'')
      \<and> indexOf months ''Jan'' = None" by (intro conjI)
  have u3: "extractDateFromPath (\<lambda>t. 0) ''archives/1 Jan 2024.png'' = Num 0"
    by (rule extractDateFromPath_contract [of "''archives/1 Jan 2024.png''" "\<lambda>t. 0",
          THEN conjunct2, THEN conjunct1, rule_format, OF u])
  from h1 h2 e f pos n1 n2 u1 u2 u3 show ?thesis by (intro conjI)
qed

subsection \<open>The wait after a rate-limited failure\<close>

text \<open>
  Claim C6. The second revision waits after a rate-limited failure under the comment
  \<open>If rate limited, wait longer\<close>, but the wait is the constant 60000 and \<open>delayMs\<close> is
  whatever the caller configures, with nothing that relates the two. With a delay of
  60000 the second revision waits 60000 after the first, delivered file and 60000 after
  the second file, whose delivery failed with status 429: the cooldown is not longer than
  the delay between deliveries. With a delay of 120000 it is half of it.
\<close>

theorem cooldown_not_longer_than_delay:
  "(\<exists>r. sendAllArchives (exampleWorld Absent exampleEndpoint) ''archives''
          (Some ''https://discord.test/hook'') 60000 = Inr r
      \<and> uploaded (attempts (final r) ! 0)
      \<and> caught (attempts (final r) ! 0) = None
      \<and> timeout (attempts (final r) ! 0) = Some 60000
      \<and> caught (attempts (final r) ! 1) = Some ''Discord API error (429): You are being rate limited.''
      \<and> rateLimited ''Discord API error (429): You are being rate limited.''
      \<and> timeout (attempts (final r) ! 1) = Some 60000)
   \<and> (\<exists>r. sendAllArchives (exampleWorld Absent exampleEndpoint) ''archives''
          (Some ''https://discord.test/hook'') 120000 = Inr r
      \<and> uploaded (attempts (final r) ! 0)
      \<and> caught (attempts (final r) ! 0) = None
      \<and> timeout (attempts (final r) ! 0) = Some 120000
      \<and> caught (attempts (final r) ! 1) = Some ''Discord API error (429): You are being rate limited.''
      \<and> timeout (attempts (final r) ! 1) = Some 60000)
   \<and> \<not> ((60000 :: int) < 60000) \<and> (60000 :: int) < 120000"
proof -
  have l: "rateLimited ''Discord API error (429): You are being rate limited.''"
    by code_simp
  have a: "\<exists>r. sendAllArchives (exampleWorld Absent exampleEndpoint) ''archives''
          (Some ''https://discord.test/hook'') 60000 = Inr r
      \<and> uploaded (attempts (final r) ! 0)
      \<and> caught (attempts (final r) ! 0) = None
      \<and> timeout (attempts (final r) ! 0) = Some 60000
      \<and> caught (attempts (final r) ! 1) = Some ''Discord API error (429): You are being rate limited.''
      \<and> rateLimited ''Discord API error (429): You are being rate limited.''
      \<and> timeout (attempts (final r) ! 1) = Some 60000"
    using l unfolding example_run by simp
  have b: "\<exists>r. sendAllArchives (exampleWorld Absent exampleEndpoint) ''archives''
          (Some ''https://discord.test/hook'') 120000 = Inr r
      \<and> uploaded (attempts (final r) ! 0)
      \<and> caught (attempts (final r) ! 0) = None
      \<and> timeout (attempts (final r) ! 0) = Some 120000
      \<and> caught (attempts (final r) ! 1) = Some ''Discord API error (429): You are being rate limited.''
      \<and> timeout (attempts (final r) ! 1) = Some 60000"
    unfolding example_run by (simp add: setTimeout_def)
  from a b show ?thesis by simp
qed

subsection \<open>The contract of sendToDiscord\<close>

text \<open>The decimal text of a number: digits only, no leading zero, and read back it gives
  the number.\<close>

lemma digit_char_table:
  "\<forall>d \<in> set [0 ..< 10]. digit_char d \<in> set ''0123456789''
      \<and> (of_char (digit_char d) :: nat) - 48 = d \<and> (d \<noteq> 0 \<longrightarrow> digit_char d \<noteq> CHR ''0'')"
  by code_simp

lemma digit_char_props:
  assumes "d < 10"
  shows "digit_char d \<in> set ''0123456789''" and "(of_char (digit_char d) :: nat) - 48 = d"
    and "d \<noteq> 0 \<Longrightarrow> digit_char d \<noteq> CHR ''0''"
proof -
  from assms have "d \<in> set [0 ..< 10]" by simp
  from bspec [OF digit_char_table this]
  show "digit_char d \<in> set ''0123456789''" and "(of_char (digit_char d) :: nat) - 48 = d"
    and "d \<noteq> 0 \<Longrightarrow> digit_char d \<noteq> CHR ''0''"
    by blast+
qed

lemma toString_not_Nil: "toString n \<noteq> []"
  by (subst toString.simps) simp

lemma toString_digits: "set (toString n) \<subseteq> set ''0123456789''"
proof (induction n rule: toString.induct)
  case (1 n)
  show ?case
  proof (cases "n < 10")
    case True
    then show ?thesis using digit_char_props(1) [of n] by (subst toString.simps) simp
  next
    case False
    have "n mod 10 < 10" by simp
    from digit_char_props(1) [OF this] "1.IH" [OF False] False show ?thesis
      by (subst toString.simps) simp
  qed
qed

lemma decimalValue_toString: "decimalValue (toString n) = n"
proof (induction n rule: toString.induct)
  case (1 n)
  show ?case
  proof (cases "n < 10")
    case True
    then show ?thesis
      using digit_char_props(2) [of n] by (subst toString.simps) (simp add: decimalValue_def)
  next
    case False
    have m: "n mod 10 < 10" by simp
    have "decimalValue (toString (n div 10) @ [digit_char (n mod 10)])
        = 10 * decimalValue (toString (n div 10)) + (of_char (digit_char (n mod 10)) - 48)"
      by (simp add: decimalValue_def)
    also have "\<dots> = 10 * (n div 10) + n mod 10"
      using "1.IH" [OF False] digit_char_props(2) [OF m] by simp
    finally show ?thesis using False by (subst toString.simps) simp
  qed
qed

lemma toString_no_leading_zero: "n \<noteq> 0 \<Longrightarrow> hd (toString n) \<noteq> CHR ''0''"
proof (induction n rule: toString.induct)
  case (1 n)
  show ?case
  proof (cases "n < 10")
    case True
    then show ?thesis
      using digit_char_props(3) [of n] "1.prems" by (subst toString.simps) simp
  next
    case False
    then have "n div 10 \<noteq> 0" by simp
    from "1.IH" [OF False this] False show ?thesis
      by (subst toString.simps) (simp add: toString_not_Nil)
  qed
qed

text \<open>
  Claim C7, as stated, fails for the second revision: it reads the file with
  \<open>fs.readFileSync\<close> before it calls \<open>fetch\<close>, so a path that exists and cannot be read (it
  may not be read, or is a directory) makes it throw before any request although the
  webhook URL is set and the path exists. On the same input the first revision, which
  hands a stream to \<open>fetch\<close>, makes the request.
\<close>

theorem unreadable_file_counterexample:
  "Some ''https://discord.test/hook'' \<noteq> None \<and> Some ''https://discord.test/hook'' \<noteq> Some ''''
   \<and> (\<lambda>p. True) ''archives/9 December 2025.png''
   \<and> sendToDiscord (\<lambda>p. True)
        (\<lambda>p. Some ''EACCES: permission denied, open archives/9 December 2025.png'')
        (Response 204 []) ''archives/9 December 2025.png'' (Some ''https://discord.test/hook'')
      = (False, Inl (Error ''EACCES: permission denied, open archives/9 December 2025.png''))
   \<and> sendToDiscord_rev1 (\<lambda>p. True) (Response 204 []) ''archives/9 December 2025.png''
        (Some ''https://discord.test/hook'')
      = (True, Inr True)"
  by (simp add: sendToDiscord_def sendToDiscord_rev1_def response_ok_def)

text \<open>
  Claim C7, amended. For every path, webhook URL, outcome of reading the file and outcome
  of \<open>fetch\<close>: \<open>sendToDiscord\<close> throws without calling \<open>fetch\<close> exactly when the webhook URL is
  undefined or empty, or the path does not exist, or, in the second revision, reading the
  file throws. Otherwise it calls \<open>fetch\<close>, and returns \<open>true\<close> exactly when there is a
  response with a status from 200 to 299; on a response with another status it throws an
  error whose message is \<open>Discord API error (\<close>, the decimal digits of the status, \<open>): \<close> and
  the body text; when \<open>fetch\<close> rejects, it throws what \<open>fetch\<close> threw.
\<close>

theorem sendToDiscord_raises_iff:
  "(case sendToDiscord exists readFile res p url of
      (fetchCalled, r) \<Rightarrow>
        ((\<not> fetchCalled \<and> isl r)
           = (url = None \<or> url = Some [] \<or> \<not> exists p \<or> readFile p \<noteq> None)) \<and>
        (\<not> (url = None \<or> url = Some [] \<or> \<not> exists p \<or> readFile p \<noteq> None) \<longrightarrow>
           fetchCalled \<and>
           ((r = Inr True) = (\<exists>status body. res = Response status body \<and> 200 \<le> status \<and> status \<le> 299)) \<and>
           (\<forall>status body. res = Response status body \<and> \<not> (200 \<le> status \<and> status \<le> 299) \<longrightarrow>
              (\<exists>ds. r = Inl (Error (''Discord API error ('' @ ds @ ''): '' @ body))
                 \<and> ds \<noteq> [] \<and> set ds \<subseteq> set ''0123456789'' \<and> decimalValue ds = status
                 \<and> (status \<noteq> 0 \<longrightarrow> hd ds \<noteq> CHR ''0''))) \<and>
           (\<forall>m. res = Rejected m \<longrightarrow> r = Inl (Error m))))
   \<and> (case sendToDiscord_rev1 exists res p url of
      (fetchCalled, r) \<Rightarrow>
        ((\<not> fetchCalled \<and> isl r) = (url = None \<or> url = Some [] \<or> \<not> exists p)) \<and>
        (\<not> (url = None \<or> url = Some [] \<or> \<not> exists p) \<longrightarrow>
           fetchCalled \<and>
           ((r = Inr True) = (\<exists>status body. res = Response status body \<and> 200 \<le> status \<and> status \<le> 299)) \<and>
           (\<forall>status body. res = Response status body \<and> \<not> (200 \<le> status \<and> status \<le> 299) \<longrightarrow>
              (\<exists>ds. r = Inl (Error (''Discord API error ('' @ ds @ ''): '' @ body))
                 \<and> ds \<noteq> [] \<and> set ds \<subseteq> set ''0123456789'' \<and> decimalValue ds = status
                 \<and> (status \<noteq> 0 \<longrightarrow> hd ds \<noteq> CHR ''0''))) \<and>
           (\<forall>m. res = Rejected m \<longrightarrow> r = Inl (Error m))))"
proof -
  have ds: "\<exists>ds. (Inl (Error (''Discord API error ('' @ toString status @ ''): '' @ body)) :: error + bool)
                = Inl (Error (''Discord API error ('' @ ds @ ''): '' @ body))
             \<and> ds \<noteq> [] \<and> set ds \<subseteq> set ''0123456789'' \<and> decimalValue ds = status
             \<and> (status \<noteq> 0 \<longrightarrow> hd ds \<noteq> CHR ''0'')" for status body
    using toString_not_Nil [of status] toString_digits [of status]
      decimalValue_toString [of status] toString_no_leading_zero [of status]
    by (intro exI [of _ "toString status"] conjI impI) simp_all
  have 2: "case sendToDiscord exists readFile res p url of
      (fetchCalled, r) \<Rightarrow>
        ((\<not> fetchCalled \<and> isl r)
           = (url = None \<or> url = Some [] \<or> \<not> exists p \<or> readFile p \<noteq> None)) \<and>
        (\<not> (url = None \<or> url = Some [] \<or> \<not> exists p \<or> readFile p \<noteq> None) \<longrightarrow>
           fetchCalled \<and>
           ((r = Inr True) = (\<exists>status body. res = Response status body \<and> 200 \<le> status \<and> status \<le> 299)) \<and>
           (\<forall>status body. res = Response status body \<and> \<not> (200 \<le> status \<and> status \<le> 299) \<longrightarrow>
              (\<exists>ds. r = Inl (Error (''Discord API error ('' @ ds @ ''): '' @ body))
                 \<and> ds \<noteq> [] \<and> set ds \<subseteq> set ''0123456789'' \<and> decimalValue ds = status
                 \<and> (status \<noteq> 0 \<longrightarrow> hd ds \<noteq> CHR ''0''))) \<and>
           (\<forall>m. res = Rejected m \<longrightarrow> r = Inl (Error m)))"
  proof (cases "url = None \<or> url = Some [] \<or> \<not> exists p \<or> readFile p \<noteq> None")
    case True
    then show ?thesis by (auto simp: sendToDiscord_def)
  next
    case False
    show ?thesis
    proof (cases res)
      case (Rejected m)
      with False show ?thesis by (auto simp: sendToDiscord_def)
    next
      case (Response status body)
      with False ds [of status body] show ?thesis
        by (auto simp: sendToDiscord_def response_ok_def)
    qed
  qed
  have 1: "case sendToDiscord_rev1 exists res p url of
      (fetchCalled, r) \<Rightarrow>
        ((\<not> fetchCalled \<and> isl r) = (url = None \<or> url = Some [] \<or> \<not> exists p)) \<and>
        (\<not> (url = None \<or> url = Some [] \<or> \<not> exists p) \<longrightarrow>
           fetchCalled \<and>
           ((r = Inr True) = (\<exists>status body. res = Response status body \<and> 200 \<le> status \<and> status \<le> 299)) \<and>
           (\<forall>status body. res = Response status body \<and> \<not> (200 \<le> status \<and> status \<le> 299) \<longrightarrow>
              (\<exists>ds. r = Inl (Error (''Discord API error ('' @ ds @ ''): '' @ body))
                 \<and> ds \<noteq> [] \<and> set ds \<subseteq> set ''0123456789'' \<and> decimalValue ds = status
                 \<and> (status \<noteq> 0 \<longrightarrow> hd ds \<noteq> CHR ''0''))) \<and>
           (\<forall>m. res = Rejected m \<longrightarrow> r = Inl (Error m)))"
  proof (cases "url = None \<or> url = Some [] \<or> \<not> exists p")
    case True
    then show ?thesis by (auto simp: sendToDiscord_rev1_def)
  next
    case False
    show ?thesis
    proof (cases res)
      case (Rejected m)
      with False show ?thesis by (auto simp: sendToDiscord_rev1_def)
    next
      case (Response status body)
      with False ds [of status body] show ?thesis
        by (auto simp: sendToDiscord_rev1_def response_ok_def)
    qed
  qed
  from 2 1 show ?thesis by (rule conjI)
qed

theorem sendToDiscord_raises_iff_witness:
  "sendToDiscord (\<lambda>p. True) (\<lambda>p. None) (Response 404 ''Unknown Webhook'')
       ''archives/9 December 2025.png'' (Some ''https://discord.test/hook'')
     = (True, Inl (Error ''Discord API error (404): Unknown Webhook''))
   \<and> (\<exists>ds. snd (sendToDiscord (\<lambda>p. True) (\<lambda>p. None) (Response 404 ''Unknown Webhook'')
            ''archives/9 December 2025.png'' (Some ''https://discord.test/hook''))
          = Inl (Error (''Discord API error ('' @ ds @ ''): '' @ ''Unknown Webhook''))
        \<and> set ds \<subseteq> set ''0123456789'' \<and> decimalValue ds = 404)
   \<and> (\<exists>ds. snd (sendToDiscord_rev1 (\<lambda>p. True) (Response 404 ''Unknown Webhook'')
            ''archives/9 December 2025.png'' (Some ''https://discord.test/hook''))
          = Inl (Error (''Discord API error ('' @ ds @ ''): '' @ ''Unknown Webhook''))
        \<and> set ds \<subseteq> set ''0123456789'' \<and> decimalValue ds = 404)
   \<and> sendToDiscord (\<lambda>p. True) (\<lambda>p. None) (Response 204 [])
         ''archives/9 December 2025.png'' (Some ''https://discord.test/hook'') = (True, Inr True)
   \<and> sendToDiscord_rev1 (\<lambda>p. True) (Response 204 [])
         ''archives/9 December 2025.png'' (Some ''https://discord.test/hook'') = (True, Inr True)
   \<and> snd (sendToDiscord (\<lambda>p. True) (\<lambda>p. None) (Rejected ''fetch failed'')
         ''archives/9 December 2025.png'' (Some ''https://discord.test/hook''))
       = Inl (Error ''fetch failed'')
   \<and> \<not> fst (sendToDiscord (\<lambda>p. True) (\<lambda>p. None) (Response 204 [])
            ''archives/9 December 2025.png'' None)
   \<and> isl (snd (sendToDiscord (\<lambda>p. True) (\<lambda>p. None) (Response 204 [])
            ''archives/9 December 2025.png'' None))
   \<and> \<not> fst (sendToDiscord (\<lambda>p. False) (\<lambda>p. None) (Response 204 [])
            ''archives/9 December 2025.png'' (Some ''https://discord.test/hook''))
   \<and> \<not> fst (sendToDiscord (\<lambda>p. True) (\<lambda>p. Some ''EISDIR: illegal operation on a directory, read'')
            (Response 204 []) ''archives/9 December 2025.png'' (Some ''https://discord.test/hook''))
   \<and> fst (sendToDiscord_rev1 (\<lambda>p. True) (Response 204 [])
            ''archives/9 December 2025.png'' (Some ''https://discord.test/hook''))"
proof -
  have lit: "sendToDiscord (\<lambda>p. True) (\<lambda>p. None) (Response 404 ''Unknown Webhook'')
       ''archives/9 December 2025.png'' (Some ''https://discord.test/hook'')
     = (True, Inl (Error ''Discord API error (404): Unknown Webhook''))"
    by code_simp
  note t = sendToDiscord_raises_iff [where exists = "\<lambda>p. True" and readFile = "\<lambda>p. None"
      and res = "Response 404 ''Unknown Webhook''" and p = "''archives/9 December 2025.png''"
      and url = "Some ''https://discord.test/hook''"]
  have a: "\<exists>ds. snd (sendToDiscord (\<lambda>p. True) (\<lambda>p. None) (Response 404 ''Unknown Webhook'')
            ''archives/9 December 2025.png'' (Some ''https://discord.test/hook''))
          = Inl (Error (''Discord API error ('' @ ds @ ''): '' @ ''Unknown Webhook''))
        \<and> set ds \<subseteq> set ''0123456789'' \<and> decimalValue ds = 404"
    using t [THEN conjunct1] by (auto split: prod.splits)
  have b: "\<exists>ds. snd (sendToDiscord_rev1 (\<lambda>p. True) (Response 404 ''Unknown Webhook'')
            ''archives/9 December 2025.png'' (Some ''https://discord.test/hook''))
          = Inl (Error (''Discord API error ('' @ ds @ ''): '' @ ''Unknown Webhook''))
        \<and> set ds \<subseteq> set ''0123456789'' \<and> decimalValue ds = 404"
    using t [THEN conjunct2] by (auto split: prod.splits)
  have c: "sendToDiscord (\<lambda>p. True) (\<lambda>p. None) (Response 204 [])
         ''archives/9 December 2025.png'' (Some ''https://discord.test/hook'') = (True, Inr True)"
    "sendToDiscord_rev1 (\<lambda>p. True) (Response 204 [])
         ''archives/9 December 2025.png'' (Some ''https://discord.test/hook'') = (True, Inr True)"
    using sendToDiscord_raises_iff [where exists = "\<lambda>p. True" and readFile = "\<lambda>p. None"
      and res = "Response 204 []" and p = "''archives/9 December 2025.png''"
      and url = "Some ''https://discord.test/hook''"]
    by (auto split: prod.splits)
  have d: "snd (sendToDiscord (\<lambda>p. True) (\<lambda>p. None) (Rejected ''fetch failed'')
         ''archives/9 December 2025.png'' (Some ''https://discord.test/hook''))
       = Inl (Error ''fetch failed'')"
    using sendToDiscord_raises_iff [where exists = "\<lambda>p. True" and readFile = "\<lambda>p. None"
      and res = "Rejected ''fetch failed''" and p = "''archives/9 December 2025.png''"
      and url = "Some ''https://discord.test/hook''"]
    by (auto split: prod.splits)
  have e: "\<not> fst (sendToDiscord (\<lambda>p. True) (\<lambda>p. None) (Response 204 [])
            ''archives/9 December 2025.png'' None)"
    "isl (snd (sendToDiscord (\<lambda>p. True) (\<lambda>p. None) (Response 204 [])
            ''archives/9 December 2025.png'' None))"
    using sendToDiscord_raises_iff [where exists = "\<lambda>p. True" and readFile = "\<lambda>p. None"
      and res = "Response 204 []" and p = "''archives/9 December 2025.png''" and url = None]
    by (auto split: prod.splits)
  have f: "\<not> fst (sendToDiscord (\<lambda>p. False) (\<lambda>p. None) (Response 204 [])
            ''archives/9 December 2025.png'' (Some ''https://discord.test/hook''))"
    using sendToDiscord_raises_iff [where exists = "\<lambda>p. False" and readFile = "\<lambda>p. None"
      and res = "Response 204 []" and p = "''archives/9 December 2025.png''"
      and url = "Some ''https://discord.test/hook''"]
    by (auto split: prod.splits)
  have g: "\<not> fst (sendToDiscord (\<lambda>p. True) (\<lambda>p. Some ''EISDIR: illegal operation on a directory, read'')
            (Response 204 []) ''archives/9 December 2025.png'' (Some ''https://discord.test/hook''))"
    "fst (sendToDiscord_rev1 (\<lambda>p. True) (Response 204 [])
            ''archives/9 December 2025.png'' (Some ''https://discord.test/hook''))"
    using sendToDiscord_raises_iff [where exists = "\<lambda>p. True"
      and readFile = "\<lambda>p. Some ''EISDIR: illegal operation on a directory, read''"
      and res = "Response 204 []" and p = "''archives/9 December 2025.png''"
      and url = "Some ''https://discord.test/hook''"]
    by (auto split: prod.splits)
  from lit a b c d e f g show ?thesis by (intro conjI)
qed

subsection \<open>What a run reports and returns\<close>

text \<open>
  Claim C8. The second revision prints its two counters and returns the first: the
  number of files that it appended to \<open>sentFiles\<close>, and the number of errors that it caught
  (\<open>sendAllArchives_counts\<close> above). The first revision has no counters. It prints and
  returns the number of new files, delivered or not: on the example archive, where the
  endpoint rejects the second of three files, two files are delivered, and the first
  revision reports 3 files sent and returns 3.
\<close>

theorem rev1_counts_failed_files:
  "\<exists>r. sendAllArchives_rev1 (exampleWorld Absent exampleEndpoint) ''archives''
          (Some ''https://discord.test/hook'') 2000 = Inr r
      \<and> delivered (attempts (final r)) =
          [''archives/2024/January/1 January 2024.png'', ''archives/2024/February/3 February 2024.png'']
      \<and> report r = [SentNewFiles 3]
      \<and> returned r = 3"
  unfolding example_run_rev1 by (simp add: delivered_def)

text \<open>The second revision on the same input reports 2 sent and 1 failed, and returns 2.\<close>

lemma rev2_counts_delivered_files:
  "\<exists>r. sendAllArchives (exampleWorld Absent exampleEndpoint) ''archives''
          (Some ''https://discord.test/hook'') 2000 = Inr r
      \<and> delivered (attempts (final r)) =
          [''archives/2024/January/1 January 2024.png'', ''archives/2024/February/3 February 2024.png'']
      \<and> report r = [Sent 2, Failed 1]
      \<and> returned r = 2"
  unfolding example_run by (simp add: delivered_def)

subsection \<open>The sent log during a run\<close>

text \<open>The state in which an iteration starts, where the sent log was loaded as a
  duplicate-free array: \<open>sentFiles\<close> is a duplicate-free array that holds none of the files
  still to come.\<close>

lemma interrupted_sentFiles:
  assumes "step_spec send disk body" and "wellFormedListing (archives w)"
    and "loadSentFiles (sentLog w) = JArr xs" and "distinct xs"
    and "newFilesOf w dir = Inr new" and "k \<le> length new"
  shows "\<exists>ys. sentFiles (interrupted body new (initial w) k) = JArr ys \<and> distinct ys
           \<and> (\<forall>f \<in> set (drop k new). JStr f \<notin> set ys)"
proof -
  have s0: "sentFiles (initial w) = JArr xs" using assms(3) by simp
  from deliverLoop_trace [OF assms(1) s0, of 0 "take k new"] obtain as where
    as: "map path as = take k new"
      "sentFiles (interrupted body new (initial w) k) = JArr (xs @ map JStr (delivered as))"
    by (auto simp: interrupted_def)
  note files = newFilesOf_files [OF assms(5)]
  have dn: "distinct new" by (rule files(2) [OF assms(2)])
  have nx: "\<forall>f \<in> set new. JStr f \<notin> set xs"
    using newFilesOf_not_recorded [OF assms(5)] assms(3) by (auto simp: records_def)
  have sub: "set (delivered as) \<subseteq> set (take k new)"
    using delivered_subset [of as] as(1) by simp
  have dd: "distinct (delivered as)"
    using distinct_delivered [of as] as(1) dn by simp
  have "distinct (xs @ map JStr (delivered as))"
    using assms(4) dd sub nx by (auto simp: distinct_map inj_on_def dest: in_set_takeD)
  moreover have "\<forall>f \<in> set (drop k new). JStr f \<notin> set (xs @ map JStr (delivered as))"
  proof
    fix f assume f: "f \<in> set (drop k new)"
    then have "f \<in> set new" by (rule in_set_dropD)
    with nx have 1: "JStr f \<notin> set xs" by simp
    from dn have "set (take k new) \<inter> set (drop k new) = {}"
      by (metis append_take_drop_id distinct_append)
    with f have "f \<notin> set (take k new)" by auto
    with sub have "f \<notin> set (delivered as)" by auto
    with 1 show "JStr f \<notin> set (xs @ map JStr (delivered as))" by auto
  qed
  ultimately show ?thesis using as(2) by blast
qed

text \<open>
  Claim C9, as stated, fails where a write of the sent log fails. \<open>push\<close> comes before
  \<open>fs.writeFileSync\<close> in the \<open>try\<close> block: when the write throws after an accepted upload,
  the file is in \<open>sentFiles\<close> and the sent log is not the updated array. On the example
  archive with a disk that refuses the first write, both revisions have uploaded the
  first file after one iteration, \<open>sentFiles\<close> holds it, and there is still no sent log.
\<close>

theorem failed_write_counterexample:
  "sendToDiscord (existsSync ''archives'' (archives failingDiskWorld))
       (readFileSync failingDiskWorld) (endpoint failingDiskWorld 0)
       ''archives/2024/January/1 January 2024.png'' (Some ''https://discord.test/hook'')
     = (True, Inr True)
   \<and> sentFiles (interrupted
         (deliver failingDiskWorld ''archives'' (Some ''https://discord.test/hook'') 2000 3)
         [''archives/2024/January/1 January 2024.png'',
          ''archives/2024/January/15 January 2024.png'',
          ''archives/2024/February/3 February 2024.png'']
         (initial failingDiskWorld) (Suc 0))
       = JArr [JStr ''archives/2024/January/1 January 2024.png'']
   \<and> persisted (interrupted
         (deliver failingDiskWorld ''archives'' (Some ''https://discord.test/hook'') 2000 3)
         [''archives/2024/January/1 January 2024.png'',
          ''archives/2024/January/15 January 2024.png'',
          ''archives/2024/February/3 February 2024.png'']
         (initial failingDiskWorld) (Suc 0))
       = Absent
   \<and> sentFiles (interrupted
         (deliver_rev1 failingDiskWorld ''archives'' (Some ''https://discord.test/hook'') 2000
            [''archives/2024/January/1 January 2024.png'',
             ''archives/2024/January/15 January 2024.png'',
             ''archives/2024/February/3 February 2024.png''])
         [''archives/2024/January/1 January 2024.png'',
          ''archives/2024/January/15 January 2024.png'',
          ''archives/2024/February/3 February 2024.png'']
         (initial failingDiskWorld) (Suc 0))
       = JArr [JStr ''archives/2024/January/1 January 2024.png'']
   \<and> persisted (interrupted
         (deliver_rev1 failingDiskWorld ''archives'' (Some ''https://discord.test/hook'') 2000
            [''archives/2024/January/1 January 2024.png'',
             ''archives/2024/January/15 January 2024.png'',
             ''archives/2024/February/3 February 2024.png''])
         [''archives/2024/January/1 January 2024.png'',
          ''archives/2024/January/15 January 2024.png'',
          ''archives/2024/February/3 February 2024.png'']
         (initial failingDiskWorld) (Suc 0))
       = Absent"
  by (intro conjI; code_simp)

text \<open>
  Claim C9, amended. Let the sent log be loaded as a duplicate-free array, and take any
  iteration of the loop, in either revision. \<open>sentFiles\<close> is a duplicate-free array when
  the iteration starts. When the call of \<open>sendToDiscord\<close> throws, \<open>sentFiles\<close> and the sent
  log are as before. When it returns, the file is appended to \<open>sentFiles\<close>, which stays
  duplicate-free, and the whole array is passed to \<open>fs.writeFileSync\<close>; where that write
  succeeds, the sent log holds exactly the updated array afterwards; where it throws, the
  sent log is as before or cut short, and the file stays in \<open>sentFiles\<close>.
\<close>

theorem sent_log_invariant:
  assumes "wellFormedListing (archives w)"
    and "loadSentFiles (sentLog w) = JArr xs" and "distinct xs"
    and "newFilesOf w dir = Inr new"
    and "(send, body) \<in>
           {(\<lambda>c f. sendToDiscord (existsSync dir (archives w)) (readFileSync w) (endpoint w c) f url,
             deliver w dir url d (length new)),
            (\<lambda>c f. sendToDiscord_rev1 (existsSync dir (archives w)) (endpoint w c) f url,
             deliver_rev1 w dir url d new)}"
    and "k < length new"
    and "s = interrupted body new (initial w) k"
    and "s' = interrupted body new (initial w) (Suc k)"
  shows "\<exists>ys. sentFiles s = JArr ys \<and> distinct ys
       \<and> (case snd (send (calls s) (new ! k)) of
            Inl e \<Rightarrow> sentFiles s' = JArr ys \<and> persisted s' = persisted s
          | Inr b \<Rightarrow> sentFiles s' = JArr (ys @ [JStr (new ! k)])
              \<and> distinct (ys @ [JStr (new ! k)])
              \<and> written (last (attempts s')) = Some (JArr (ys @ [JStr (new ! k)]))
              \<and> (case writeFileSync w (calls s) of
                   Written \<Rightarrow> persisted s' = Parsed (JArr (ys @ [JStr (new ! k)]))
                 | WriteError m t \<Rightarrow> persisted s' = (if t then Unparsable else persisted s)))"
proof -
  have step: "step_spec send (writeFileSync w) body"
    using assms(5) step_spec_deliver [of dir w url d "length new"]
      step_spec_deliver_rev1 [of dir w url d new]
    by auto
  from assms(6) have kl: "k \<le> length new" by simp
  from interrupted_sentFiles [OF step assms(1-4) kl] assms(7) obtain ys where
    ys: "sentFiles s = JArr ys" "distinct ys" "\<forall>f \<in> set (drop k new). JStr f \<notin> set ys"
    by blast
  have "new ! k \<in> set (drop k new)"
    using assms(6) by (simp add: Cons_nth_drop_Suc [symmetric])
  with ys(3) have nk: "JStr (new ! k) \<notin> set ys" by simp
  from step_specD [OF step, of k "new ! k" s] obtain a where
    it: "iteration send (writeFileSync w) body k (new ! k) s a" ..
  have s': "s' = body k (new ! k) s"
    unfolding assms(7,8) by (rule interrupted_Suc [OF assms(6)])
  have la: "last (attempts s') = a"
    using iteration_attempt(1) [OF it] by (simp add: s')
  show ?thesis
  proof (cases "snd (send (calls s) (new ! k))")
    case (Inl e)
    from iteration_Inl(4,5) [OF it Inl] ys(1,2) show ?thesis
      by (intro exI [of _ ys]) (simp add: Inl s')
  next
    case (Inr b)
    note r = iteration_Inr_array [OF it Inr ys(1)]
    show ?thesis
    proof (cases "writeFileSync w (calls s)")
      case Written
      from r(1,2) r(4) [OF Written] ys(1,2) nk show ?thesis
        by (intro exI [of _ ys]) (simp add: Inr Written s' [symmetric] la)
    next
      case (WriteError m t)
      from r(1,2) r(6) [OF WriteError] ys(1,2) nk show ?thesis
        by (intro exI [of _ ys]) (simp add: Inr WriteError s' [symmetric] la)
    qed
  qed
qed

theorem sent_log_invariant_witness:
  "loadSentFiles (sentLog (exampleWorld
       (Parsed (JArr [JStr ''archives/2024/January/1 January 2024.png''])) exampleEndpoint))
     = JArr [JStr ''archives/2024/January/1 January 2024.png'']
   \<and> newFilesOf (exampleWorld
         (Parsed (JArr [JStr ''archives/2024/January/1 January 2024.png''])) exampleEndpoint)
         ''archives''
       = Inr [''archives/2024/January/15 January 2024.png'',
              ''archives/2024/February/3 February 2024.png'']
   \<and> sentFiles (interrupted
         (deliver (exampleWorld
            (Parsed (JArr [JStr ''archives/2024/January/1 January 2024.png''])) exampleEndpoint)
            ''archives'' (Some ''https://discord.test/hook'') 2000 2)
         [''archives/2024/January/15 January 2024.png'',
          ''archives/2024/February/3 February 2024.png'']
         (initial (exampleWorld
            (Parsed (JArr [JStr ''archives/2024/January/1 January 2024.png''])) exampleEndpoint))
         (Suc 0))
       = JArr [JStr ''archives/2024/January/1 January 2024.png'',
               JStr ''archives/2024/January/15 January 2024.png'']
   \<and> persisted (interrupted
         (deliver (exampleWorld
            (Parsed (JArr [JStr ''archives/2024/January/1 January 2024.png''])) exampleEndpoint)
            ''archives'' (Some ''https://discord.test/hook'') 2000 2)
         [''archives/2024/January/15 January 2024.png'',
          ''archives/2024/February/3 February 2024.png'']
         (initial (exampleWorld
            (Parsed (JArr [JStr ''archives/2024/January/1 January 2024.png''])) exampleEndpoint))
         (Suc 0))
       = Parsed (JArr [JStr ''archives/2024/January/1 January 2024.png'',
                       JStr ''archives/2024/January/15 January 2024.png''])
   \<and> sentFiles (interrupted
         (deliver (exampleWorld
            (Parsed (JArr [JStr ''archives/2024/January/1 January 2024.png''])) exampleEndpoint)
            ''archives'' (Some ''https://discord.test/hook'') 2000 2)
         [''archives/2024/January/15 January 2024.png'',
          ''archives/2024/February/3 February 2024.png'']
         (initial (exampleWorld
            (Parsed (JArr [JStr ''archives/2024/January/1 January 2024.png''])) exampleEndpoint))
         (Suc (Suc 0)))
       = JArr [JStr ''archives/2024/January/1 January 2024.png'',
               JStr ''archives/2024/January/15 January 2024.png'']
   \<and> persisted (interrupted
         (deliver (exampleWorld
            (Parsed (JArr [JStr ''archives/2024/January/1 January 2024.png''])) exampleEndpoint)
            ''archives'' (Some ''https://discord.test/hook'') 2000 2)
         [''archives/2024/January/15 January 2024.png'',
          ''archives/2024/February/3 February 2024.png'']
         (initial (exampleWorld
            (Parsed (JArr [JStr ''archives/2024/January/1 January 2024.png''])) exampleEndpoint))
         (Suc (Suc 0)))
       = Parsed (JArr [JStr ''archives/2024/January/1 January 2024.png'',
                       JStr ''archives/2024/January/15 January 2024.png''])
   \<and> sentFiles (interrupted
         (deliver_rev1 (exampleWorld
            (Parsed (JArr [JStr ''archives/2024/January/1 January 2024.png''])) exampleEndpoint)
            ''archives'' (Some ''https://discord.test/hook'') 2000
            [''archives/2024/January/15 January 2024.png'',
             ''archives/2024/February/3 February 2024.png''])
         [''archives/2024/January/15 January 2024.png'',
          ''archives/2024/February/3 February 2024.png'']
         (initial (exampleWorld
            (Parsed (JArr [JStr ''archives/2024/January/1 January 2024.png''])) exampleEndpoint))
         (Suc 0))
       = JArr [JStr ''archives/2024/January/1 January 2024.png'',
               JStr ''archives/2024/January/15 January 2024.png'']
   \<and> persisted (interrupted
         (deliver_rev1 (exampleWorld
            (Parsed (JArr [JStr ''archives/2024/January/1 January 2024.png''])) exampleEndpoint)
            ''archives'' (Some ''https://discord.test/hook'') 2000
            [''archives/2024/January/15 January 2024.png'',
             ''archives/2024/February/3 February 2024.png''])
         [''archives/2024/January/15 January 2024.png'',
          ''archives/2024/February/3 February 2024.png'']
         (initial (exampleWorld
            (Parsed (JArr [JStr ''archives/2024/January/1 January 2024.png''])) exampleEndpoint))
         (Suc 0))
       = Parsed (JArr [JStr ''archives/2024/January/1 January 2024.png'',
                       JStr ''archives/2024/January/15 January 2024.png''])"
proof -
  let ?f1 = "''archives/2024/January/1 January 2024.png''"
  let ?f2 = "''archives/2024/January/15 January 2024.png''"
  let ?f3 = "''archives/2024/February/3 February 2024.png''"
  let ?w = "exampleWorld (Parsed (JArr [JStr ?f1])) exampleEndpoint"
  let ?url = "Some ''https://discord.test/hook''"
  let ?new = "[?f2, ?f3]"
  let ?send = "\<lambda>c f. sendToDiscord (existsSync ''archives'' (archives ?w)) (readFileSync ?w)
      (endpoint ?w c) f ?url"
  let ?send1 = "\<lambda>c f. sendToDiscord_rev1 (existsSync ''archives'' (archives ?w)) (endpoint ?w c) f ?url"
  let ?body = "deliver ?w ''archives'' ?url 2000 (length ?new)"
  let ?body1 = "deliver_rev1 ?w ''archives'' ?url 2000 ?new"
  let ?m = "''Discord API error (429): You are being rate limited.''"
  have h1: "wellFormedListing (archives ?w)" by (simp add: example_wellFormed)
  have h2: "loadSentFiles (sentLog ?w) = JArr [JStr ?f1]" by (simp add: loadSentFiles_def)
  have h3: "distinct [JStr ?f1]" by simp
  from newFilesOf_array [OF h2, of "''archives''"]
  have h4: "newFilesOf ?w ''archives'' = Inr ?new" by (simp add: example_sorted)
  have h5: "(?send, ?body) \<in>
           {(\<lambda>c f. sendToDiscord (existsSync ''archives'' (archives ?w)) (readFileSync ?w)
                (endpoint ?w c) f ?url,
             deliver ?w ''archives'' ?url 2000 (length ?new)),
            (\<lambda>c f. sendToDiscord_rev1 (existsSync ''archives'' (archives ?w)) (endpoint ?w c) f ?url,
             deliver_rev1 ?w ''archives'' ?url 2000 ?new)}"
    by (rule insertI1)
  have h5': "(?send1, ?body1) \<in>
           {(\<lambda>c f. sendToDiscord (existsSync ''archives'' (archives ?w)) (readFileSync ?w)
                (endpoint ?w c) f ?url,
             deliver ?w ''archives'' ?url 2000 (length ?new)),
            (\<lambda>c f. sendToDiscord_rev1 (existsSync ''archives'' (archives ?w)) (endpoint ?w c) f ?url,
             deliver_rev1 ?w ''archives'' ?url 2000 ?new)}"
    by (rule insertI2, rule insertI1)
  have k0: "0 < length ?new" and k1: "Suc 0 < length ?new" by simp_all
  have s0: "?send 0 ?f2 = (True, Inr True)" by code_simp
  have s0': "?send1 0 ?f2 = (True, Inr True)" by code_simp
  have e1: "?send (Suc 0) ?f3 = (True, Inl (Error ?m))" by code_simp
  have c1: "calls (interrupted ?body ?new (initial ?w) (Suc 0)) = Suc 0" by code_simp
  have w0: "writeFileSync ?w 0 = Written" by simp
  txt \<open>The first iteration of the second revision: the upload is accepted.\<close>
  from sent_log_invariant [where w = ?w and dir = "''archives''" and url = ?url and d = 2000
      and new = ?new and xs = "[JStr ?f1]" and send = ?send and body = ?body and k = 0,
      OF h1 h2 h3 h4 h5 k0 refl refl]
  obtain ys where ys: "sentFiles (interrupted ?body ?new (initial ?w) 0) = JArr ys"
    and c: "case snd (?send (calls (interrupted ?body ?new (initial ?w) 0)) (?new ! 0)) of
            Inl e \<Rightarrow> sentFiles (interrupted ?body ?new (initial ?w) (Suc 0)) = JArr ys
              \<and> persisted (interrupted ?body ?new (initial ?w) (Suc 0))
                  = persisted (interrupted ?body ?new (initial ?w) 0)
          | Inr b \<Rightarrow> sentFiles (interrupted ?body ?new (initial ?w) (Suc 0))
                  = JArr (ys @ [JStr (?new ! 0)])
              \<and> distinct (ys @ [JStr (?new ! 0)])
              \<and> written (last (attempts (interrupted ?body ?new (initial ?w) (Suc 0))))
                  = Some (JArr (ys @ [JStr (?new ! 0)]))
              \<and> (case writeFileSync ?w (calls (interrupted ?body ?new (initial ?w) 0)) of
                   Written \<Rightarrow> persisted (interrupted ?body ?new (initial ?w) (Suc 0))
                       = Parsed (JArr (ys @ [JStr (?new ! 0)]))
                 | WriteError m t \<Rightarrow> persisted (interrupted ?body ?new (initial ?w) (Suc 0))
                       = (if t then Unparsable else persisted (interrupted ?body ?new (initial ?w) 0)))"
    by (elim exE conjE)
  from ys h2 have y: "ys = [JStr ?f1]" by simp
  have i0: "calls (interrupted ?body ?new (initial ?w) 0) = 0" by simp
  from c [unfolded i0 nth_Cons_0 s0 y w0]
  have a: "sentFiles (interrupted ?body ?new (initial ?w) (Suc 0)) = JArr [JStr ?f1, JStr ?f2]"
    "persisted (interrupted ?body ?new (initial ?w) (Suc 0)) = Parsed (JArr [JStr ?f1, JStr ?f2])"
    by simp_all
  txt \<open>The second iteration of the second revision: the upload is rejected.\<close>
  from sent_log_invariant [where w = ?w and dir = "''archives''" and url = ?url and d = 2000
      and new = ?new and xs = "[JStr ?f1]" and send = ?send and body = ?body and k = "Suc 0",
      OF h1 h2 h3 h4 h5 k1 refl refl]
  obtain zs where zs: "sentFiles (interrupted ?body ?new (initial ?w) (Suc 0)) = JArr zs"
    and c': "case snd (?send (calls (interrupted ?body ?new (initial ?w) (Suc 0))) (?new ! Suc 0)) of
            Inl e \<Rightarrow> sentFiles (interrupted ?body ?new (initial ?w) (Suc (Suc 0))) = JArr zs
              \<and> persisted (interrupted ?body ?new (initial ?w) (Suc (Suc 0)))
                  = persisted (interrupted ?body ?new (initial ?w) (Suc 0))
          | Inr b \<Rightarrow> sentFiles (interrupted ?body ?new (initial ?w) (Suc (Suc 0)))
                  = JArr (zs @ [JStr (?new ! Suc 0)])
              \<and> distinct (zs @ [JStr (?new ! Suc 0)])
              \<and> written (last (attempts (interrupted ?body ?new (initial ?w) (Suc (Suc 0)))))
                  = Some (JArr (zs @ [JStr (?new ! Suc 0)]))
              \<and> (case writeFileSync ?w (calls (interrupted ?body ?new (initial ?w) (Suc 0))) of
                   Written \<Rightarrow> persisted (interrupted ?body ?new (initial ?w) (Suc (Suc 0)))
                       = Parsed (JArr (zs @ [JStr (?new ! Suc 0)]))
                 | WriteError m t \<Rightarrow> persisted (interrupted ?body ?new (initial ?w) (Suc (Suc 0)))
                       = (if t then Unparsable
                          else persisted (interrupted ?body ?new (initial ?w) (Suc 0))))"
    by (elim exE conjE)
  from zs a(1) have z: "zs = [JStr ?f1, JStr ?f2]" by simp
  from c' [unfolded c1 nth_Cons_Suc nth_Cons_0 e1 z] a(2)
  have b: "sentFiles (interrupted ?body ?new (initial ?w) (Suc (Suc 0))) = JArr [JStr ?f1, JStr ?f2]"
    "persisted (interrupted ?body ?new (initial ?w) (Suc (Suc 0)))
       = Parsed (JArr [JStr ?f1, JStr ?f2])"
    by simp_all
  txt \<open>The first iteration of the first revision.\<close>
  from sent_log_invariant [where w = ?w and dir = "''archives''" and url = ?url and d = 2000
      and new = ?new and xs = "[JStr ?f1]" and send = ?send1 and body = ?body1 and k = 0,
      OF h1 h2 h3 h4 h5' k0 refl refl]
  obtain vs where vs: "sentFiles (interrupted ?body1 ?new (initial ?w) 0) = JArr vs"
    and c'': "case snd (?send1 (calls (interrupted ?body1 ?new (initial ?w) 0)) (?new ! 0)) of
            Inl e \<Rightarrow> sentFiles (interrupted ?body1 ?new (initial ?w) (Suc 0)) = JArr vs
              \<and> persisted (interrupted ?body1 ?new (initial ?w) (Suc 0))
                  = persisted (interrupted ?body1 ?new (initial ?w) 0)
          | Inr b \<Rightarrow> sentFiles (interrupted ?body1 ?new (initial ?w) (Suc 0))
                  = JArr (vs @ [JStr (?new ! 0)])
              \<and> distinct (vs @ [JStr (?new ! 0)])
              \<and> written (last (attempts (interrupted ?body1 ?new (initial ?w) (Suc 0))))
                  = Some (JArr (vs @ [JStr (?new ! 0)]))
              \<and> (case writeFileSync ?w (calls (interrupted ?body1 ?new (initial ?w) 0)) of
                   Written \<Rightarrow> persisted (interrupted ?body1 ?new (initial ?w) (Suc 0))
                       = Parsed (JArr (vs @ [JStr (?new ! 0)]))
                 | WriteError m t \<Rightarrow> persisted (interrupted ?body1 ?new (initial ?w) (Suc 0))
                       = (if t then Unparsable
                          else persisted (interrupted ?body1 ?new (initial ?w) 0)))"
    by (elim exE conjE)
  from vs h2 have v: "vs = [JStr ?f1]" by simp
  have j0: "calls (interrupted ?body1 ?new (initial ?w) 0) = 0" by simp
  from c'' [unfolded j0 nth_Cons_0 s0' v w0]
  have a1: "sentFiles (interrupted ?body1 ?new (initial ?w) (Suc 0)) = JArr [JStr ?f1, JStr ?f2]"
    "persisted (interrupted ?body1 ?new (initial ?w) (Suc 0)) = Parsed (JArr [JStr ?f1, JStr ?f2])"
    by simp_all
  have l2: "length ?new = 2" by simp
  from h2 h4 a b a1 show ?thesis unfolding l2 by (intro conjI)
qed

subsection \<open>Which failures count as rate-limited\<close>

lemma toString_429: "toString 429 = ''429''"
  by code_simp

lemma rateLimited_429: "rateLimited (''Discord API error ('' @ toString 429 @ ''): '' @ body)"
  unfolding rateLimited_def toString_429
  using str_includes_mid [of "''Discord API error (''" "''429''" "''): '' @ body"] by simp

lemma rateLimited_body:
  "rateLimited (''Discord API error ('' @ toString status @ ''): '' @ ''upstream answered 429'')"
proof -
  have "str_includes ((''Discord API error ('' @ toString status @ ''): upstream answered '') @ ''429'') ''429''"
    by (rule str_includes_end)
  then show ?thesis by (simp add: rateLimited_def)
qed

text \<open>An iteration of the second revision whose request is answered with a status
  outside 200 to 299.\<close>

lemma deliver_rejected:
  assumes "url \<noteq> None" "url \<noteq> Some []" "existsSync dir (archives w) f"
    and "readFileSync w f = None" "endpoint w (calls s) = Response status body"
    and "\<not> response_ok status"
  shows "attempts (deliver w dir url d n i f s) = attempts s @
     [\<lparr>path = f,
       fetched = True,
       uploaded = False,
       written = None,
       caught = Some (''Discord API error ('' @ toString status @ ''): '' @ body),
       timeout = (if rateLimited (''Discord API error ('' @ toString status @ ''): '' @ body)
                  then Some 60000 else None)\<rparr>]"
  using assms by (simp add: deliver_def sendToDiscord_def catchBlock_def)

text \<open>A response with status 500 whose body mentions 429.\<close>

lemma other_status_waits:
  "(500 :: nat) \<noteq> 429 \<and> \<not> response_ok 500 \<and> str_includes ''upstream answered 429'' ''429''
     \<and> (\<forall>w' dir' url' d' n' i' f'. \<forall>s' :: loop_state.
           url' \<noteq> None \<and> url' \<noteq> Some [] \<and> existsSync dir' (archives w') f' \<and> readFileSync w' f' = None
             \<and> endpoint w' (calls s') = Response 500 ''upstream answered 429'' \<longrightarrow>
           timeout (last (attempts (deliver w' dir' url' d' n' i' f' s'))) = Some 60000)"
proof (intro conjI allI impI)
  show "(500 :: nat) \<noteq> 429" by simp
  show n: "\<not> response_ok 500" by (simp add: response_ok_def)
  show "str_includes ''upstream answered 429'' ''429''"
    using str_includes_end [of "''upstream answered ''" "''429''"] by simp
  fix w' :: world and dir' :: string and url' :: "string option"
    and d' :: int and n' i' :: nat and f' :: string and s' :: loop_state
  assume h: "url' \<noteq> None \<and> url' \<noteq> Some [] \<and> existsSync dir' (archives w') f' \<and> readFileSync w' f' = None
      \<and> endpoint w' (calls s') = Response 500 ''upstream answered 429''"
  then have "attempts (deliver w' dir' url' d' n' i' f' s') = attempts s' @
       [\<lparr>path = f',
         fetched = True,
         uploaded = False,
         written = None,
         caught = Some (''Discord API error ('' @ toString 500 @ ''): '' @ ''upstream answered 429''),
         timeout = (if rateLimited (''Discord API error ('' @ toString 500 @ ''): '' @ ''upstream answered 429'')
                    then Some 60000 else None)\<rparr>]"
    using n by (intro deliver_rejected) simp_all
  then show "timeout (last (attempts (deliver w' dir' url' d' n' i' f' s'))) = Some 60000"
    using rateLimited_body [of 500] by simp
qed

text \<open>
  Claim C10. In the second revision a failed iteration waits the 60000 ms of a
  rate-limited failure exactly when the message of the caught error contains \<open>rate limit\<close>
  or \<open>429\<close>. When the endpoint answers a request with status 429, whatever the body, the
  iteration fails with such a message and waits. And there is a response with another
  status than 429, outside 200 to 299, whose body contains \<open>429\<close>, after which every
  iteration waits the 60000 ms too.
\<close>

theorem rate_limit_by_message:
  fixes s :: loop_state
  shows "(\<forall>r. sendAllArchives w dir url d = Inr r \<longrightarrow>
            (\<forall>a \<in> set (attempts (final r)). \<forall>m. caught a = Some m \<longrightarrow>
               (timeout a = Some 60000) = (str_includes m ''rate limit'' \<or> str_includes m ''429'')))
       \<and> (\<forall>body. url \<noteq> None \<and> url \<noteq> Some [] \<and> existsSync dir (archives w) f
              \<and> readFileSync w f = None \<and> endpoint w (calls s) = Response 429 body \<longrightarrow>
            (\<exists>m. caught (last (attempts (deliver w dir url d n i f s))) = Some m
               \<and> (str_includes m ''rate limit'' \<or> str_includes m ''429'')
               \<and> timeout (last (attempts (deliver w dir url d n i f s))) = Some 60000))
       \<and> (\<exists>status body. status \<noteq> 429 \<and> \<not> response_ok status \<and> str_includes body ''429''
            \<and> (\<forall>w' dir' url' d' n' i' f'. \<forall>s' :: loop_state.
                  url' \<noteq> None \<and> url' \<noteq> Some [] \<and> existsSync dir' (archives w') f' \<and> readFileSync w' f' = None \<and> endpoint w' (calls s') = Response status body \<longrightarrow>
                  timeout (last (attempts (deliver w' dir' url' d' n' i' f' s'))) = Some 60000))"
proof (intro conjI)
  show "\<forall>r. sendAllArchives w dir url d = Inr r \<longrightarrow>
            (\<forall>a \<in> set (attempts (final r)). \<forall>m. caught a = Some m \<longrightarrow>
               (timeout a = Some 60000) = (str_includes m ''rate limit'' \<or> str_includes m ''429''))"
  proof (intro allI impI ballI)
    fix r a m
    assume r: "sendAllArchives w dir url d = Inr r" and a: "a \<in> set (attempts (final r))"
      and m: "caught a = Some m"
    from a obtain j where j: "j < length (attempts (final r))" "attempts (final r) ! j = a"
      by (auto simp: in_set_conv_nth)
    from sendAllArchives_timeouts [OF r, rule_format, OF j(1)] m j(2)
    have "timeout a = (if rateLimited m then Some 60000 else None)" by simp
    then show "(timeout a = Some 60000) = (str_includes m ''rate limit'' \<or> str_includes m ''429'')"
      by (simp add: rateLimited_def)
  qed
  show "\<forall>body. url \<noteq> None \<and> url \<noteq> Some [] \<and> existsSync dir (archives w) f
              \<and> readFileSync w f = None \<and> endpoint w (calls s) = Response 429 body \<longrightarrow>
            (\<exists>m. caught (last (attempts (deliver w dir url d n i f s))) = Some m
               \<and> (str_includes m ''rate limit'' \<or> str_includes m ''429'')
               \<and> timeout (last (attempts (deliver w dir url d n i f s))) = Some 60000)"
  proof (intro allI impI)
    fix body
    assume h: "url \<noteq> None \<and> url \<noteq> Some [] \<and> existsSync dir (archives w) f
              \<and> readFileSync w f = None \<and> endpoint w (calls s) = Response 429 body"
    have "\<not> response_ok 429" by (simp add: response_ok_def)
    with h have "attempts (deliver w dir url d n i f s) = attempts s @
       [\<lparr>path = f,
         fetched = True,
         uploaded = False,
         written = None,
         caught = Some (''Discord API error ('' @ toString 429 @ ''): '' @ body),
         timeout = (if rateLimited (''Discord API error ('' @ toString 429 @ ''): '' @ body)
                    then Some 60000 else None)\<rparr>]"
      by (intro deliver_rejected) simp_all
    then show "\<exists>m. caught (last (attempts (deliver w dir url d n i f s))) = Some m
               \<and> (str_includes m ''rate limit'' \<or> str_includes m ''429'')
               \<and> timeout (last (attempts (deliver w dir url d n i f s))) = Some 60000"
      using rateLimited_429 [of body] by (simp add: rateLimited_def)
  qed
  show "\<exists>status body. status \<noteq> 429 \<and> \<not> response_ok status \<and> str_includes body ''429''
            \<and> (\<forall>w' dir' url' d' n' i' f'. \<forall>s' :: loop_state.
                  url' \<noteq> None \<and> url' \<noteq> Some [] \<and> existsSync dir' (archives w') f' \<and> readFileSync w' f' = None \<and> endpoint w' (calls s') = Response status body \<longrightarrow>
                  timeout (last (attempts (deliver w' dir' url' d' n' i' f' s'))) = Some 60000)"
    using other_status_waits by blast
qed

theorem rate_limit_by_message_witness:
  "(\<exists>r. sendAllArchives (exampleWorld Absent exampleEndpoint) ''archives''
          (Some ''https://discord.test/hook'') 2000 = Inr r
      \<and> caught (attempts (final r) ! 1) = Some ''Discord API error (429): You are being rate limited.''
      \<and> timeout (attempts (final r) ! 1) = Some 60000)
   \<and> (str_includes ''Discord API error (429): You are being rate limited.'' ''rate limit''
        \<or> str_includes ''Discord API error (429): You are being rate limited.'' ''429'')
   \<and> timeout (last (attempts (deliver (exampleWorld Absent (\<lambda>n. Response 429 ''slow down''))
         ''archives'' (Some ''https://discord.test/hook'') 2000 3 1
         ''archives/2024/January/15 January 2024.png''
         (initial (exampleWorld Absent (\<lambda>n. Response 429 ''slow down'')))))) = Some 60000"
proof -
  let ?w = "exampleWorld Absent exampleEndpoint"
  let ?v = "exampleWorld Absent (\<lambda>n. Response 429 ''slow down'')"
  let ?url = "Some ''https://discord.test/hook''"
  let ?m = "''Discord API error (429): You are being rate limited.''"
  let ?f = "''archives/2024/January/15 January 2024.png''"
  obtain r where r: "sendAllArchives ?w ''archives'' ?url 2000 = Inr r"
    unfolding example_run by simp
  have a: "attempts (final r) ! 1 \<in> set (attempts (final r))"
    using r unfolding example_run by auto
  have c: "caught (attempts (final r) ! 1) = Some ?m" "timeout (attempts (final r) ! 1) = Some 60000"
    using r unfolding example_run by auto
  have "(timeout (attempts (final r) ! 1) = Some 60000)
      = (str_includes ?m ''rate limit'' \<or> str_includes ?m ''429'')"
    by (rule rate_limit_by_message [where w = ?w and dir = "''archives''" and url = ?url
          and d = 2000, THEN conjunct1, rule_format, OF r a c(1)])
  with c(2) have m: "str_includes ?m ''rate limit'' \<or> str_includes ?m ''429''" by simp
  from r c have e: "\<exists>r. sendAllArchives ?w ''archives'' ?url 2000 = Inr r
      \<and> caught (attempts (final r) ! 1) = Some ?m
      \<and> timeout (attempts (final r) ! 1) = Some 60000"
    by (intro exI [of _ r] conjI)
  have x: "existsSync ''archives'' (archives ?v) ?f"
    by (simp only: exampleWorld_simps example_exists)
  have h: "?url \<noteq> None \<and> ?url \<noteq> Some [] \<and> existsSync ''archives'' (archives ?v) ?f
      \<and> readFileSync ?v ?f = None
      \<and> endpoint ?v (calls (initial ?v)) = Response 429 ''slow down''"
    using x by simp
  from rate_limit_by_message [where url = ?url and w = ?v and dir = "''archives''" and f = ?f
      and s = "initial ?v" and d = 2000 and n = 3
      and i = 1, THEN conjunct2, THEN conjunct1, rule_format, OF h]
  have t: "timeout (last (attempts (deliver ?v ''archives'' ?url 2000 3 1 ?f (initial ?v))))
      = Some 60000"
    by (elim exE conjE)
  from e m t show ?thesis by (intro conjI)
qed

end
